theory Spec2Isabelle
  imports Complex_Main "HOL-Library.Char_ord" "HOL-Library.List_Lexorder"
begin

section \<open>Values and exceptions of the Python program\<close>

text \<open>
  The program (\<^verbatim>\<open>avoma_plain_text.py\<close>) works on the values that \<^verbatim>\<open>Response.json()\<close>
  returns: \<^verbatim>\<open>None\<close>, booleans, numbers, strings, lists and dicts with string keys.
  A dict is an association list (the first binding of a key is the dict's value).
  Numbers are integers here: the code only tests their truthiness and their type.
\<close>

datatype json =
    JNull
  | JBool bool
  | JNum int
  | JStr string
  | JList "json list"
  | JDict "(string \<times> json) list"

text \<open>The exceptions the code can raise; a function that may raise returns \<open>pyerr + 'a\<close>.\<close>

datatype pyerr = AttributeError | TypeError | RuntimeError | JSONDecodeError | HTTPError | IndexError

definition bindE :: "pyerr + 'a \<Rightarrow> ('a \<Rightarrow> pyerr + 'b) \<Rightarrow> pyerr + 'b" where
  "bindE m f = (case m of Inl e \<Rightarrow> Inl e | Inr x \<Rightarrow> f x)"

text \<open>Python's truth value of a value (\<^verbatim>\<open>if not t\<close>, \<^verbatim>\<open>a or b\<close>).\<close>

fun truthy :: "json \<Rightarrow> bool" where
  "truthy JNull = False"
| "truthy (JBool b) = b"
| "truthy (JNum n) = (n \<noteq> 0)"
| "truthy (JStr s) = (s \<noteq> [])"
| "truthy (JList xs) = (xs \<noteq> [])"
| "truthy (JDict kvs) = (kvs \<noteq> [])"

text \<open>\<^verbatim>\<open>a or b\<close>: the first operand when it is truthy, the second otherwise.\<close>

definition py_or :: "json \<Rightarrow> json \<Rightarrow> json" where
  "py_or a b = (if truthy a then a else b)"

text \<open>\<^verbatim>\<open>d.get(k)\<close> on a dict: \<^verbatim>\<open>None\<close> for a missing key.\<close>

definition dict_get :: "(string \<times> json) list \<Rightarrow> string \<Rightarrow> json" where
  "dict_get kvs k = (case map_of kvs k of None \<Rightarrow> JNull | Some v \<Rightarrow> v)"

text \<open>\<^verbatim>\<open>x.get(k)\<close> on any value: only a dict has the method.\<close>

fun py_get :: "json \<Rightarrow> string \<Rightarrow> pyerr + json" where
  "py_get (JDict kvs) k = Inr (dict_get kvs k)"
| "py_get _ k = Inl AttributeError"

text \<open>
  \<^verbatim>\<open>for x in v\<close>: a list gives its elements, a string its characters, a dict its keys;
  no other value can be iterated.
\<close>

fun py_iter :: "json \<Rightarrow> pyerr + json list" where
  "py_iter (JList xs) = Inr xs"
| "py_iter (JStr s) = Inr (map (\<lambda>c. JStr [c]) s)"
| "py_iter (JDict kvs) = Inr (map JStr (remdups (map fst kvs)))"
| "py_iter _ = Inl TypeError"

subsection \<open>Strings\<close>

text \<open>
  \<^verbatim>\<open>str.strip()\<close> removes leading and trailing whitespace; the whitespace characters
  of the ASCII range are the ones Python's \<^verbatim>\<open>str.isspace\<close> accepts there.
\<close>

definition is_space :: "char \<Rightarrow> bool" where
  "is_space c = (c \<in> set [CHR 0x09, CHR 0x0A, CHR 0x0B, CHR 0x0C, CHR 0x0D,
                           CHR 0x1C, CHR 0x1D, CHR 0x1E, CHR 0x1F, CHR 0x20])"

definition strip :: "string \<Rightarrow> string" where
  "strip s = rev (dropWhile is_space (rev (dropWhile is_space s)))"

text \<open>\<^verbatim>\<open>v.strip()\<close> on any value: only a string has the method.\<close>

fun py_strip :: "json \<Rightarrow> pyerr + string" where
  "py_strip (JStr s) = Inr (strip s)"
| "py_strip _ = Inl AttributeError"

text \<open>\<^verbatim>\<open>"\n".join(lines)\<close>.\<close>

fun join_nl :: "string list \<Rightarrow> string" where
  "join_nl [] = []"
| "join_nl [l] = l"
| "join_nl (l # ls) = l @ [CHR 0x0A] @ join_nl ls"

text \<open>The first exception of a sequence of results, or all the values.\<close>

fun sequenceE :: "(pyerr + 'a) list \<Rightarrow> pyerr + 'a list" where
  "sequenceE [] = Inr []"
| "sequenceE (r # rs) =
     (case r of Inl e \<Rightarrow> Inl e
      | Inr x \<Rightarrow> (case sequenceE rs of Inl e \<Rightarrow> Inl e | Inr xs \<Rightarrow> Inr (x # xs)))"

section \<open>The transcript normalizer\<close>

text \<open>
  Keys of the speaker table are arbitrary values. A list or a dict cannot be a key
  (\<^verbatim>\<open>TypeError: unhashable type\<close>); \<^verbatim>\<open>True\<close> and \<^verbatim>\<open>1\<close> (\<^verbatim>\<open>False\<close> and \<^verbatim>\<open>0\<close>) are the same key.
\<close>

fun hashable :: "json \<Rightarrow> bool" where
  "hashable (JList _) = False"
| "hashable (JDict _) = False"
| "hashable _ = True"

fun key_of :: "json \<Rightarrow> json" where
  "key_of (JBool b) = JNum (if b then 1 else 0)"
| "key_of j = j"

type_synonym speaker_table = "(json \<times> json) list"

text \<open>\<^verbatim>\<open>speakers[sid] = name\<close>.\<close>

definition table_set :: "speaker_table \<Rightarrow> json \<Rightarrow> json \<Rightarrow> pyerr + speaker_table" where
  "table_set tb k v =
     (if hashable k then Inr ((key_of k, v) # filter (\<lambda>(k', _). k' \<noteq> key_of k) tb)
      else Inl TypeError)"

text \<open>\<^verbatim>\<open>speakers.get(k)\<close>.\<close>

definition table_get :: "speaker_table \<Rightarrow> json \<Rightarrow> pyerr + json" where
  "table_get tb k =
     (if hashable k then Inr (case map_of tb (key_of k) of None \<Rightarrow> JNull | Some v \<Rightarrow> v)
      else Inl TypeError)"

text \<open>
  The name stored for a \<^verbatim>\<open>speakers\<close> entry:
  \<^verbatim>\<open>s.get("name") or s.get("speaker") or (f"Speaker {sid}" if sid is not None else "")\<close>.
  \<open>str_of\<close> is Python's built-in \<^verbatim>\<open>str\<close>, which the f-string applies to the id.
\<close>

definition speaker_name :: "(json \<Rightarrow> string) \<Rightarrow> (string \<times> json) list \<Rightarrow> json \<Rightarrow> json" where
  "speaker_name str_of kvs sid =
     py_or (py_or (dict_get kvs ''name'') (dict_get kvs ''speaker''))
       (if sid \<noteq> JNull then JStr (''Speaker '' @ str_of sid) else JStr [])"

text \<open>
  The loop over the \<^verbatim>\<open>speakers\<close> entries, filling the table. An entry that is not a
  dict has no \<^verbatim>\<open>get\<close>: \<^verbatim>\<open>s.get("id")\<close> raises.
\<close>

fun speakers_loop :: "(json \<Rightarrow> string) \<Rightarrow> speaker_table \<Rightarrow> json list \<Rightarrow> pyerr + speaker_table" where
  "speakers_loop str_of tb [] = Inr tb"
| "speakers_loop str_of tb (JDict kvs # ss) =
     (let sid = dict_get kvs ''id''; name = speaker_name str_of kvs sid
      in bindE (if sid \<noteq> JNull then table_set tb sid name else Inr tb) (\<lambda>tb'.
           speakers_loop str_of tb' ss))"
| "speakers_loop str_of tb (_ # ss) = Inl AttributeError"

text \<open>
  \<^verbatim>\<open>f"{spk + ': ' if spk else ''}{txt}"\<close>: the speaker is any value here; a truthy one
  that is not a string cannot be concatenated with \<^verbatim>\<open>': '\<close>.
\<close>

fun prefix_line :: "json \<Rightarrow> string \<Rightarrow> pyerr + string" where
  "prefix_line (JStr s) txt = Inr (if s \<noteq> [] then s @ '': '' @ txt else txt)"
| "prefix_line spk txt = (if truthy spk then Inl TypeError else Inr txt)"

text \<open>The text of a turn: \<^verbatim>\<open>(tr.get("transcript") or tr.get("text") or "").strip()\<close>.\<close>

definition turn_text :: "(string \<times> json) list \<Rightarrow> pyerr + string" where
  "turn_text kvs =
     py_strip (py_or (py_or (dict_get kvs ''transcript'') (dict_get kvs ''text'')) (JStr []))"

text \<open>
  The loop over the turns of \<^verbatim>\<open>t["transcript"]\<close>, appending to \<^verbatim>\<open>lines\<close>; a turn
  that is not a dict is skipped.
\<close>

fun turns_loop :: "speaker_table \<Rightarrow> json list \<Rightarrow> pyerr + string list" where
  "turns_loop tb [] = Inr []"
| "turns_loop tb (JDict kvs # trs) =
     bindE (turn_text kvs) (\<lambda>txt.
       if txt = [] then turns_loop tb trs
       else bindE (table_get tb (dict_get kvs ''speaker_id'')) (\<lambda>found.
            bindE (prefix_line (py_or found (JStr [])) txt) (\<lambda>line.
            bindE (turns_loop tb trs) (\<lambda>rest. Inr (line # rest)))))"
| "turns_loop tb (_ # trs) = turns_loop tb trs"

text \<open>
  The loop over the entries of \<^verbatim>\<open>paragraphs\<close> or \<^verbatim>\<open>segments\<close>, appending to
  \<^verbatim>\<open>lines2\<close>. There is no type test here: \<^verbatim>\<open>it.get("speaker")\<close> raises for an entry
  that is not a dict.
\<close>

fun segments_loop :: "json list \<Rightarrow> pyerr + string list" where
  "segments_loop [] = Inr []"
| "segments_loop (JDict kvs # its) =
     bindE (py_strip (py_or (py_or (dict_get kvs ''speaker'') (dict_get kvs ''speaker_label'')) (JStr [])))
       (\<lambda>spk.
     bindE (py_strip (py_or (dict_get kvs ''text'') (JStr []))) (\<lambda>txt.
     bindE (segments_loop its) (\<lambda>rest.
       Inr (if txt \<noteq> [] then (if spk \<noteq> [] then spk @ '': '' @ txt else txt) # rest
            else rest))))"
| "segments_loop (_ # its) = Inl AttributeError"

text \<open>\<^verbatim>\<open>for it in t.get(k) or []\<close>.\<close>

definition iter_or_empty :: "json \<Rightarrow> pyerr + json list" where
  "iter_or_empty v = (if truthy v then py_iter v else Inr [])"

text \<open>The first of the keys that holds a string with non-blank content, stripped.\<close>

fun first_text :: "(string \<times> json) list \<Rightarrow> string list \<Rightarrow> string option" where
  "first_text kvs [] = None"
| "first_text kvs (k # ks) =
     (case dict_get kvs k of
        JStr s \<Rightarrow> (if strip s \<noteq> [] then Some (strip s) else first_text kvs ks)
      | _ \<Rightarrow> first_text kvs ks)"

text \<open>The turn-list branch: the lines it collects (\<^verbatim>\<open>lines\<close>), for a dict whose \<^verbatim>\<open>transcript\<close> is a list.\<close>

definition transcript_lines :: "(json \<Rightarrow> string) \<Rightarrow> (string \<times> json) list \<Rightarrow> json list \<Rightarrow> pyerr + string list" where
  "transcript_lines str_of kvs turns =
     bindE (iter_or_empty (dict_get kvs ''speakers'')) (\<lambda>ss.
     bindE (speakers_loop str_of [] ss) (\<lambda>tb.
       turns_loop tb turns))"

text \<open>The branch of \<^verbatim>\<open>paragraphs\<close> and \<^verbatim>\<open>segments\<close>: both are scanned, in this order.\<close>

definition segment_lines :: "(string \<times> json) list \<Rightarrow> pyerr + string list" where
  "segment_lines kvs =
     bindE (iter_or_empty (dict_get kvs ''paragraphs'')) (\<lambda>ps.
     bindE (segments_loop ps) (\<lambda>l1.
     bindE (iter_or_empty (dict_get kvs ''segments'')) (\<lambda>sg.
     bindE (segments_loop sg) (\<lambda>l2. Inr (l1 @ l2)))))"

text \<open>\<^verbatim>\<open>parts = [p for p in parts if p]; "\n".join(parts).strip()\<close>.\<close>

definition join_parts :: "string list \<Rightarrow> string" where
  "join_parts parts = strip (join_nl (filter (\<lambda>p. p \<noteq> []) parts))"

lemma dict_get_size: "size (dict_get kvs k) < Suc (size_list (size_prod (\<lambda>_. 0) size) kvs)"
proof (induction kvs)
  case Nil
  then show ?case by (simp add: dict_get_def)
next
  case (Cons kv kvs)
  then show ?case by (cases kv) (auto simp: dict_get_def split: option.splits)
qed

lemma size_elem_list: "x \<in> set xs \<Longrightarrow> size x < Suc (size_list size xs)"
  by (induction xs) auto

function transcript_json_to_text :: "(json \<Rightarrow> string) \<Rightarrow> json \<Rightarrow> pyerr + string" where
  "transcript_json_to_text str_of t =
     (if \<not> truthy t then Inr []
      else case t of
        JDict kvs \<Rightarrow>
          (case first_text kvs [''content'', ''text'', ''transcript'', ''body''] of
             Some s \<Rightarrow> Inr s
           | None \<Rightarrow>
               bindE (case dict_get kvs ''transcript'' of
                        JList turns \<Rightarrow> transcript_lines str_of kvs turns
                      | _ \<Rightarrow> Inr []) (\<lambda>lines.
               if lines \<noteq> [] then Inr (strip (join_nl lines))
               else bindE (segment_lines kvs) (\<lambda>lines2.
                 if lines2 \<noteq> [] then Inr (strip (join_nl lines2))
                 else (case dict_get kvs ''results'' of
                         JList xs \<Rightarrow>
                           bindE (sequenceE (map (transcript_json_to_text str_of) xs)) (\<lambda>parts.
                             if filter (\<lambda>p. p \<noteq> []) parts \<noteq> [] then Inr (join_parts parts)
                             else Inr [])
                       | _ \<Rightarrow> Inr []))))
      | JList xs \<Rightarrow>
          bindE (sequenceE (map (transcript_json_to_text str_of) xs)) (\<lambda>parts. Inr (join_parts parts))
      | JStr s \<Rightarrow> Inr (strip s)
      | _ \<Rightarrow> Inr [])"
  by pat_completeness auto
termination
proof (relation "measure (\<lambda>(_, t). size t)", goal_cases)
  case 1
  then show ?case by simp
next
  case (2 str_of t xs x)
  then show ?case using size_elem_list [of x xs] by simp
next
  case (3 str_of t kvs lines lines2 xs x)
  have "size x < Suc (size_list size xs)"
    using 3 by (simp add: size_elem_list)
  moreover have "size (JList xs) < Suc (size_list (size_prod (\<lambda>_. 0) size) kvs)"
    using dict_get_size [of kvs "''results''"] 3 by simp
  ultimately show ?case using 3 by simp
qed

section \<open>The HTTP client\<close>

text \<open>
  A response of the \<^verbatim>\<open>requests\<close> library: its status code and its body as
  \<^verbatim>\<open>Response.json()\<close> reads it (\<open>None\<close> when the body is not JSON and the call
  raises). An attempt either raises (a transport failure) or replies.
\<close>

record response =
  status_code :: nat
  body :: "json option"

datatype outcome = Raises | Replies response

text \<open>
  The arguments of \<^verbatim>\<open>requests.request\<close>: method, URL, headers, and the keyword
  arguments \<^verbatim>\<open>params\<close> and \<^verbatim>\<open>json\<close> (\<open>JNull\<close> when absent). The URL is a value, as
  the code passes a cursor taken from a reply without testing its type.
\<close>

record request =
  http_method :: string
  url :: json
  headers :: "(string \<times> string) list"
  params :: json
  json_body :: json

text \<open>
  What a run does to the outside world, in order: the attempts it sends, its calls of
  \<^verbatim>\<open>time.sleep\<close>, and its entries into \<^verbatim>\<open>av_list_meetings_by_organizer\<close> (recorded to
  count the meeting fetches). The network decides the outcome of an attempt from
  everything that happened before it.
\<close>

datatype event = Sent request | Slept rat | Fetch string

type_synonym trace = "event list"

type_synonym network = "trace \<Rightarrow> request \<Rightarrow> outcome"

text \<open>\<^verbatim>\<open>r.status_code in (429, 500, 502, 503, 504)\<close>.\<close>

definition retry_status :: "nat \<Rightarrow> bool" where
  "retry_status sc = (sc \<in> set [429, 500, 502, 503, 504])"

text \<open>
  The loop of \<^verbatim>\<open>http_request\<close>, with the number of iterations left and the current
  \<^verbatim>\<open>sleep\<close>. A reply with a retry status and a raised exception both sleep, double the
  sleep up to 12 and go on; any other reply is returned. When the iterations are used
  up the result is \<^verbatim>\<open>None\<close>. Durations are rationals: doubling a float and taking the
  minimum with 12.0 are exact, so the sleeps are those of the code for the same first
  sleep. The \<^verbatim>\<open>timeout\<close> argument belongs to the network; the warning that is logged for
  an exception is not recorded.
\<close>

fun http_attempts :: "network \<Rightarrow> request \<Rightarrow> nat \<Rightarrow> rat \<Rightarrow> trace \<Rightarrow> response option \<times> trace" where
  "http_attempts net rq 0 sleep tr = (None, tr)"
| "http_attempts net rq (Suc n) sleep tr =
     (case net tr rq of
        Replies r \<Rightarrow>
          (if retry_status (status_code r)
           then http_attempts net rq n (min (sleep * 2) 12) (tr @ [Sent rq, Slept sleep])
           else (Some r, tr @ [Sent rq]))
      | Raises \<Rightarrow> http_attempts net rq n (min (sleep * 2) 12) (tr @ [Sent rq, Slept sleep]))"

text \<open>\<^verbatim>\<open>http_request(method, url, headers, retries=5, backoff_start=0.7, **kwargs)\<close>:
  \<^verbatim>\<open>range(max(1, retries))\<close> iterations.\<close>

definition http_request :: "network \<Rightarrow> request \<Rightarrow> int \<Rightarrow> rat \<Rightarrow> trace \<Rightarrow> response option \<times> trace" where
  "http_request net rq retries backoff_start tr =
     http_attempts net rq (nat (max 1 retries)) backoff_start tr"

text \<open>The call with the default arguments, as every caller in the program makes it.\<close>

definition http_default :: "network \<Rightarrow> request \<Rightarrow> trace \<Rightarrow> response option \<times> trace" where
  "http_default net rq tr = http_request net rq 5 (7 / 10) tr"

text \<open>
  To state the retry behaviour: an attempt fails when it raises or replies with a retry
  status; \<open>retry_trace rq s j\<close> is what \<open>j\<close> failed attempts leave in the trace when the
  \<open>k\<close>-th of them is followed by a sleep of \<open>min (s * 2 ^ (k - 1)) 12\<close>.
\<close>

fun fails :: "outcome \<Rightarrow> bool" where
  "fails Raises = True"
| "fails (Replies r) = retry_status (status_code r)"

definition retry_trace :: "request \<Rightarrow> rat \<Rightarrow> nat \<Rightarrow> trace" where
  "retry_trace rq s j = concat (map (\<lambda>i. [Sent rq, Slept (min (s * 2 ^ i) 12)]) [0..<j])"

section \<open>Meeting selection\<close>

text \<open>\<^verbatim>\<open>str.lower()\<close>, on the letters of the ASCII range.\<close>

definition lower_chr :: "char \<Rightarrow> char" where
  "lower_chr c =
     (let n = (of_char c :: nat) in if 65 \<le> n \<and> n \<le> 90 then char_of (n + 32) else c)"

definition lower :: "string \<Rightarrow> string" where
  "lower s = map lower_chr s"

text \<open>
  A point in time is an integer, the microseconds since 0001-01-01T00:00:00 UTC;
  \<open>DT_MAX\<close> is \<^verbatim>\<open>datetime.max.replace(tzinfo=timezone.utc)\<close>, the last microsecond of the
  year 9999.
\<close>

definition DT_MAX :: int where
  "DT_MAX = 315537897599999999"

text \<open>\<^verbatim>\<open>dt_str.replace("Z", "+00:00")\<close>.\<close>

definition replace_Z :: "string \<Rightarrow> string" where
  "replace_Z s = concat (map (\<lambda>c. if c = CHR ''Z'' then ''+00:00'' else [c]) s)"

text \<open>
  \<^verbatim>\<open>parse_iso\<close>. The parameter \<open>fromiso\<close> is the library's \<^verbatim>\<open>datetime.fromisoformat\<close>, read as
  UTC when the text names no zone: the point in time, or \<open>None\<close> when it raises. Any
  exception is caught, so a truthy value that is not a string gives \<^verbatim>\<open>None\<close> too.
\<close>

fun parse_iso :: "(string \<Rightarrow> int option) \<Rightarrow> json \<Rightarrow> int option" where
  "parse_iso fromiso (JStr s) = (if s = [] then None else fromiso (replace_Z s))"
| "parse_iso fromiso _ = None"

text \<open>\<^verbatim>\<open>looks_like_call\<close>; the \<^verbatim>\<open>in\<close> test on a set hashes its left operand.\<close>

definition looks_like_call :: "json \<Rightarrow> pyerr + bool" where
  "looks_like_call m =
     bindE (py_get m ''transcript_ready'') (\<lambda>a.
     if truthy a then Inr True else
     bindE (py_get m ''transcription_uuid'') (\<lambda>b.
     if truthy b then Inr True else
     bindE (py_get m ''audio_ready'') (\<lambda>c.
     if truthy c then Inr True else
     bindE (py_get m ''video_ready'') (\<lambda>d.
     if truthy d then Inr True else
     bindE (py_get m ''processing_status'') (\<lambda>ps.
     if hashable ps
     then Inr (ps \<in> set [JStr ''transcription_available'', JStr ''completed''])
     else Inl TypeError)))))"

text \<open>The loop of \<^verbatim>\<open>attendees_emails\<close>, and the function: \<^verbatim>\<open>sorted(set(out))\<close>.\<close>

fun attendees_loop :: "json list \<Rightarrow> pyerr + string list" where
  "attendees_loop [] = Inr []"
| "attendees_loop (a # as) =
     bindE (py_get a ''email'') (\<lambda>v.
     bindE (py_strip (py_or v (JStr []))) (\<lambda>s.
     bindE (attendees_loop as) (\<lambda>rest.
       Inr (if lower s \<noteq> [] then lower s # rest else rest))))"

definition attendees_emails :: "json \<Rightarrow> pyerr + string list" where
  "attendees_emails m =
     bindE (py_get m ''attendees'') (\<lambda>v.
     bindE (iter_or_empty v) (\<lambda>as.
     bindE (attendees_loop as) (\<lambda>out. Inr (sort (remdups out)))))"

text \<open>\<^verbatim>\<open>(m.get("organizer_email") or "").strip().lower()\<close>.\<close>

definition organizer_field :: "json \<Rightarrow> pyerr + string" where
  "organizer_field m =
     bindE (py_get m ''organizer_email'') (\<lambda>v.
     bindE (py_strip (py_or v (JStr []))) (\<lambda>s. Inr (lower s)))"

text \<open>
  \<^verbatim>\<open>m.get("start_at") or m.get("startTime") or m.get("start_time") or m.get("start")\<close>.
\<close>

definition start_field :: "json \<Rightarrow> pyerr + json" where
  "start_field m =
     bindE (py_get m ''start_at'') (\<lambda>a.
     bindE (py_get m ''startTime'') (\<lambda>b.
     bindE (py_get m ''start_time'') (\<lambda>c.
     bindE (py_get m ''start'') (\<lambda>d.
       Inr (py_or (py_or (py_or a b) c) d)))))"

text \<open>
  The body of the loop \<^verbatim>\<open>for m in all_items\<close> in \<^verbatim>\<open>run_pipeline\<close>: whether the meeting is
  appended to \<^verbatim>\<open>filtered\<close>. The attendees and the organizer are computed first, then the
  four tests run in the order of the code, each ending the iteration when it fails.
\<close>

definition keep_meeting :: "(string \<Rightarrow> int option) \<Rightarrow> int \<Rightarrow> string \<Rightarrow> string \<Rightarrow> json \<Rightarrow> pyerr + bool" where
  "keep_meeting fromiso cutoff organizer_email customer_email m =
     bindE (attendees_emails m) (\<lambda>atts.
     bindE (organizer_field m) (\<lambda>org.
       if \<not> (org = organizer_email \<or> organizer_email \<in> set atts) then Inr False
       else if customer_email \<notin> set atts then Inr False
       else bindE (looks_like_call m) (\<lambda>call.
         if \<not> call then Inr False
         else bindE (start_field m) (\<lambda>st.
           (case parse_iso fromiso st of
              Some dt \<Rightarrow> if dt < cutoff then Inr False else Inr True
            | None \<Rightarrow> Inr True)))))"

fun filter_meetings :: "(string \<Rightarrow> int option) \<Rightarrow> int \<Rightarrow> string \<Rightarrow> string \<Rightarrow> json list \<Rightarrow> pyerr + json list" where
  "filter_meetings fromiso cutoff organizer_email customer_email [] = Inr []"
| "filter_meetings fromiso cutoff organizer_email customer_email (m # ms) =
     bindE (keep_meeting fromiso cutoff organizer_email customer_email m) (\<lambda>keep.
     bindE (filter_meetings fromiso cutoff organizer_email customer_email ms) (\<lambda>rest.
       Inr (if keep then m # rest else rest)))"

text \<open>
  \<^verbatim>\<open>filtered.sort(key=lambda mm: parse_iso(...) or datetime.max.replace(tzinfo=timezone.utc))\<close>:
  the keys of all elements are computed, then the list is sorted by them, stably.
\<close>

definition sort_key_of :: "(string \<Rightarrow> int option) \<Rightarrow> json \<Rightarrow> pyerr + int" where
  "sort_key_of fromiso m =
     bindE (start_field m) (\<lambda>st.
       Inr (case parse_iso fromiso st of Some dt \<Rightarrow> dt | None \<Rightarrow> DT_MAX))"

definition sort_by_start :: "(string \<Rightarrow> int option) \<Rightarrow> json list \<Rightarrow> pyerr + json list" where
  "sort_by_start fromiso filtered =
     bindE (sequenceE (map (sort_key_of fromiso) filtered)) (\<lambda>keys.
       Inr (map snd (sort_key fst (zip keys filtered))))"

subsection \<open>The selection rules in the words of the specification\<close>

text \<open>
  The four predicates of the filter and the start time of a meeting, stated on their
  own, to compare the loop above with.
\<close>

definition attendee_set :: "json \<Rightarrow> string set" where
  "attendee_set m = (case attendees_emails m of Inr atts \<Rightarrow> set atts | Inl _ \<Rightarrow> {})"

definition organizer_matches :: "string \<Rightarrow> json \<Rightarrow> bool" where
  "organizer_matches organizer_email m =
     (organizer_field m = Inr organizer_email \<or> organizer_email \<in> attendee_set m)"

definition leaf_attends :: "string \<Rightarrow> json \<Rightarrow> bool" where
  "leaf_attends customer_email m = (customer_email \<in> attendee_set m)"

fun call_completed :: "json \<Rightarrow> bool" where
  "call_completed (JDict kvs) =
     (truthy (dict_get kvs ''transcript_ready'') \<or> truthy (dict_get kvs ''transcription_uuid'')
      \<or> truthy (dict_get kvs ''audio_ready'') \<or> truthy (dict_get kvs ''video_ready'')
      \<or> dict_get kvs ''processing_status'' = JStr ''transcription_available''
      \<or> dict_get kvs ''processing_status'' = JStr ''completed'')"
| "call_completed _ = False"

definition start_time :: "(string \<Rightarrow> int option) \<Rightarrow> json \<Rightarrow> int option" where
  "start_time fromiso m = (case start_field m of Inr st \<Rightarrow> parse_iso fromiso st | Inl _ \<Rightarrow> None)"

definition not_before_cutoff :: "(string \<Rightarrow> int option) \<Rightarrow> int \<Rightarrow> json \<Rightarrow> bool" where
  "not_before_cutoff fromiso cutoff m =
     (case start_time fromiso m of Some dt \<Rightarrow> cutoff \<le> dt | None \<Rightarrow> True)"

definition eligible :: "(string \<Rightarrow> int option) \<Rightarrow> int \<Rightarrow> string \<Rightarrow> string \<Rightarrow> json \<Rightarrow> bool" where
  "eligible fromiso cutoff organizer_email customer_email m =
     (organizer_matches organizer_email m \<and> leaf_attends customer_email m
      \<and> call_completed m \<and> not_before_cutoff fromiso cutoff m)"





text \<open>The sort key with the exception stripped: the parsed start time, or \<open>DT_MAX\<close>.\<close>

definition start_key :: "(string \<Rightarrow> int option) \<Rightarrow> json \<Rightarrow> int" where
  "start_key fromiso m = (case start_time fromiso m of Some dt \<Rightarrow> dt | None \<Rightarrow> DT_MAX)"

text \<open>
  Example data: a parser that knows three texts (it agrees with
  \<^verbatim>\<open>datetime.fromisoformat\<close> on them), and meetings of one organizer.
\<close>

definition ex_fromiso :: "string \<Rightarrow> int option" where
  "ex_fromiso s =
     (if s = ''2024-05-05T10:00:00+00:00'' then Some 63850500000000000
      else if s = ''2024-05-02T10:00:00+00:00'' then Some 63850240800000000
      else if s = ''9999-12-31T23:59:59.999999'' then Some DT_MAX
      else None)"

definition ex_meeting :: "string \<Rightarrow> string \<Rightarrow> (string \<times> json) list \<Rightarrow> json" where
  "ex_meeting uuid leaf extra =
     JDict ([(''uuid'', JStr uuid), (''organizer_email'', JStr ''owner@x.io''),
             (''attendees'', JList [JDict [(''email'', JStr leaf)]]),
             (''transcript_ready'', JBool True)] @ extra)"

definition ex_day5 :: json where
  "ex_day5 = ex_meeting ''m5'' ''lead@y.io'' [(''start_at'', JStr ''2024-05-05T10:00:00Z'')]"

definition ex_day2 :: json where
  "ex_day2 = ex_meeting ''m2'' ''lead@y.io'' [(''start_time'', JStr ''2024-05-02T10:00:00Z'')]"

definition ex_nostart :: json where
  "ex_nostart = ex_meeting ''m0'' ''lead@y.io'' []"

definition ex_other :: json where
  "ex_other = ex_meeting ''mx'' ''other@y.io'' [(''start_at'', JStr ''2024-05-02T10:00:00Z'')]"

definition ex_maxstart :: json where
  "ex_maxstart = ex_meeting ''m9'' ''lead@y.io'' [(''start_at'', JStr ''9999-12-31T23:59:59.999999'')]"

section \<open>Calls with effects\<close>

text \<open>
  A function of the program that sends requests or sleeps takes the trace so far and
  returns its result, a value or a raised exception, with the extended trace.
\<close>

type_synonym 'a io = "trace \<Rightarrow> (pyerr + 'a) \<times> trace"

text \<open>
  The truth value of a response object is its \<^verbatim>\<open>ok\<close> property (\<^verbatim>\<open>Response.__bool__\<close> of
  the \<^verbatim>\<open>requests\<close> library): false exactly when \<^verbatim>\<open>raise_for_status\<close> would raise, that
  is for a status from 400 to 599. So \<^verbatim>\<open>not r\<close> holds for \<^verbatim>\<open>None\<close> and for such a reply.
\<close>

definition resp_ok :: "response \<Rightarrow> bool" where
  "resp_ok r = (\<not> (400 \<le> status_code r \<and> status_code r < 600))"


definition raise_for_status :: "response \<Rightarrow> pyerr + unit" where
  "raise_for_status r = (if resp_ok r then Inr () else Inl HTTPError)"

text \<open>\<^verbatim>\<open>r.json()\<close>.\<close>

definition resp_json :: "response \<Rightarrow> pyerr + json" where
  "resp_json r = (case body r of None \<Rightarrow> Inl JSONDecodeError | Some j \<Rightarrow> Inr j)"

text \<open>\<^verbatim>\<open>x.get(k, default)\<close>: the default only for a missing key.\<close>

fun py_get_default :: "json \<Rightarrow> string \<Rightarrow> json \<Rightarrow> pyerr + json" where
  "py_get_default (JDict kvs) k d = Inr (case map_of kvs k of None \<Rightarrow> d | Some v \<Rightarrow> v)"
| "py_get_default _ k d = Inl AttributeError"

text \<open>\<^verbatim>\<open>d[k] = v\<close> on a dict: an existing key keeps its place, a new one goes last.\<close>

fun dict_set :: "(string \<times> 'v) list \<Rightarrow> string \<Rightarrow> 'v \<Rightarrow> (string \<times> 'v) list" where
  "dict_set [] k v = [(k, v)]"
| "dict_set ((k', v') # kvs) k v = (if k' = k then (k, v) # kvs else (k', v') # dict_set kvs k v)"

section \<open>The meeting fetcher\<close>

definition AV_BASE :: string where
  "AV_BASE = ''https://api.avoma.com''"

definition av_headers :: "string \<Rightarrow> (string \<times> string) list" where
  "av_headers key = [(''Authorization'', ''Bearer '' @ key), (''Content-Type'', ''application/json'')]"

text \<open>
  \<^verbatim>\<open>chunk = data.get("results") or data.get("meetings") or []\<close> and \<^verbatim>\<open>data.get("next")\<close>,
  for \<^verbatim>\<open>data = r.json() or {}\<close>.
\<close>

definition page_chunk :: "json \<Rightarrow> pyerr + json" where
  "page_chunk data =
     bindE (py_get data ''results'') (\<lambda>a.
     bindE (py_get data ''meetings'') (\<lambda>b. Inr (py_or (py_or a b) (JList []))))"

text \<open>
  The request for one page:
  \<^verbatim>\<open>http_request("GET", nxt or url, av_headers(avoma_key), params=None if nxt else params)\<close>.
\<close>

definition page_request :: "string \<Rightarrow> json \<Rightarrow> json \<Rightarrow> request" where
  "page_request key ps nxt =
     \<lparr>http_method = ''GET'', url = py_or nxt (JStr (AV_BASE @ ''/v1/meetings'')),
      headers = av_headers key, params = (if truthy nxt then JNull else ps),
      json_body = JNull\<rparr>"

text \<open>
  The loop \<^verbatim>\<open>for _ in range(max(1, pages))\<close> of \<^verbatim>\<open>av_list_meetings_by_organizer\<close> for one
  naming convention \<open>ps\<close>, with the iterations left, the cursor \<^verbatim>\<open>nxt\<close> and the \<^verbatim>\<open>items\<close>
  collected so far. The first request carries the parameters; a later one goes to the
  cursor, without parameters. No reply, a reply that is not ok, a status 400 or 404, a
  chunk that is not a list, and a missing cursor all end the loop.
\<close>

fun pages_loop :: "network \<Rightarrow> string \<Rightarrow> json \<Rightarrow> rat \<Rightarrow> nat \<Rightarrow> json \<Rightarrow> json list \<Rightarrow> json list io" where
  "pages_loop net key ps delay 0 nxt items tr = (Inr items, tr)"
| "pages_loop net key ps delay (Suc n) nxt items tr =
     (case http_default net (page_request key ps nxt) tr of
        (None, tr1) \<Rightarrow> (Inr items, tr1)
      | (Some r, tr1) \<Rightarrow>
          if \<not> resp_ok r then (Inr items, tr1)
          else if status_code r \<in> set [400, 404] then (Inr items, tr1)
          else (case bindE (raise_for_status r) (\<lambda>_.
                     bindE (resp_json r) (\<lambda>j.
                     bindE (page_chunk (py_or j (JDict []))) (\<lambda>chunk.
                     bindE (py_get (py_or j (JDict [])) ''next'') (\<lambda>nxt'. Inr (chunk, nxt'))))) of
                  Inl e \<Rightarrow> (Inl e, tr1)
                | Inr (JList xs, nxt') \<Rightarrow>
                    if \<not> truthy nxt' then (Inr (items @ xs), tr1)
                    else pages_loop net key ps delay n nxt' (items @ xs) (tr1 @ [Slept delay])
                | Inr (_, nxt') \<Rightarrow> (Inr items, tr1)))"

text \<open>
  The loop over the two naming conventions; \<^verbatim>\<open>items\<close> is shared by both, and
  \<^verbatim>\<open>if items: break\<close> ends the loop after a convention that left it non-empty.
\<close>

fun conventions_loop :: "network \<Rightarrow> string \<Rightarrow> rat \<Rightarrow> nat \<Rightarrow> json list \<Rightarrow> json list \<Rightarrow> json list io" where
  "conventions_loop net key delay n items [] tr = (Inr items, tr)"
| "conventions_loop net key delay n items (ps # rest) tr =
     (case pages_loop net key ps delay n JNull items tr of
        (Inl e, tr1) \<Rightarrow> (Inl e, tr1)
      | (Inr items', tr1) \<Rightarrow>
          if items' \<noteq> [] then (Inr items', tr1)
          else conventions_loop net key delay n items' rest tr1)"

text \<open>The two parameter dicts: \<^verbatim>\<open>organizer_email\<close> first, \<^verbatim>\<open>organizerEmail\<close> second.\<close>

definition primary_params :: "string \<Rightarrow> string \<Rightarrow> string \<Rightarrow> int \<Rightarrow> json" where
  "primary_params organizer_email frm to limit =
     JDict [(''organizer_email'', JStr organizer_email), (''from_date'', JStr frm),
            (''to_date'', JStr to), (''limit'', JNum limit)]"

definition alternate_params :: "string \<Rightarrow> string \<Rightarrow> string \<Rightarrow> int \<Rightarrow> json" where
  "alternate_params organizer_email frm to limit =
     JDict [(''organizerEmail'', JStr organizer_email), (''from_date'', JStr frm),
            (''to_date'', JStr to), (''limit'', JNum limit)]"

text \<open>
  \<^verbatim>\<open>av_list_meetings_by_organizer\<close>. The entry into the function is recorded in the trace.
\<close>

definition av_list_meetings_by_organizer ::
  "network \<Rightarrow> string \<Rightarrow> string \<Rightarrow> string \<Rightarrow> string \<Rightarrow> int \<Rightarrow> int \<Rightarrow> rat \<Rightarrow> json list io" where
  "av_list_meetings_by_organizer net avoma_key organizer_email frm to limit pages delay tr =
     conventions_loop net avoma_key delay (nat (max 1 pages)) []
       [primary_params organizer_email frm to limit, alternate_params organizer_email frm to limit]
       (tr @ [Fetch organizer_email])"





section \<open>The CRM calls\<close>

definition HS_BASE :: string where
  "HS_BASE = ''https://api.hubapi.com''"

definition hs_headers :: "string \<Rightarrow> (string \<times> string) list" where
  "hs_headers token = [(''Authorization'', ''Bearer '' @ token), (''Content-Type'', ''application/json'')]"

text \<open>
  \<^verbatim>\<open>hs_get_list_member_ids\<close>. The loop over the \<^verbatim>\<open>results\<close> of one page of memberships:
  \<^verbatim>\<open>rid = it.get("recordId"); if rid: ids.append(str(rid))\<close>. \<open>str_of\<close> is the built-in
  \<^verbatim>\<open>str\<close>.
\<close>

fun record_ids_loop :: "(json \<Rightarrow> string) \<Rightarrow> string list \<Rightarrow> json list \<Rightarrow> pyerr + string list" where
  "record_ids_loop str_of ids [] = Inr ids"
| "record_ids_loop str_of ids (it # its) =
     bindE (py_get it ''recordId'') (\<lambda>rid.
       record_ids_loop str_of (if truthy rid then ids @ [str_of rid] else ids) its)"

text \<open>\<^verbatim>\<open>data.get("paging", {}).get("next", {}).get("after")\<close>.\<close>

definition next_after :: "json \<Rightarrow> pyerr + json" where
  "next_after data =
     bindE (py_get_default data ''paging'' (JDict [])) (\<lambda>p.
     bindE (py_get_default p ''next'' (JDict [])) (\<lambda>n. py_get n ''after''))"

text \<open>What one page of memberships adds: the ids, and the cursor for the next page.\<close>

definition members_page :: "(json \<Rightarrow> string) \<Rightarrow> string list \<Rightarrow> response \<Rightarrow> pyerr + (string list \<times> json)" where
  "members_page str_of ids rr =
     bindE (raise_for_status rr) (\<lambda>_.
     bindE (resp_json rr) (\<lambda>j.
     bindE (py_get_default (py_or j (JDict [])) ''results'' (JList [])) (\<lambda>res.
     bindE (py_iter res) (\<lambda>its.
     bindE (record_ids_loop str_of ids its) (\<lambda>ids'.
     bindE (next_after (py_or j (JDict []))) (\<lambda>after. Inr (ids', after)))))))"

definition members_request :: "string \<Rightarrow> string \<Rightarrow> (string \<times> json) list \<Rightarrow> request" where
  "members_request token list_id ps =
     \<lparr>http_method = ''GET'',
      url = JStr (HS_BASE @ ''/crm/v3/lists/'' @ list_id @ ''/memberships''),
      headers = hs_headers token, params = JDict ps, json_body = JNull\<rparr>"

text \<open>
  The loop \<^verbatim>\<open>while True\<close> over the pages of memberships. It goes on as long as the server
  names a next page, so it need not end: the first argument bounds the number of
  iterations, and \<open>None\<close> is the run that has not ended within the bound.
\<close>

fun members_loop :: "nat \<Rightarrow> network \<Rightarrow> (json \<Rightarrow> string) \<Rightarrow> string \<Rightarrow> string \<Rightarrow> rat \<Rightarrow>
    (string \<times> json) list \<Rightarrow> json \<Rightarrow> string list \<Rightarrow> trace \<Rightarrow> ((pyerr + string list) \<times> trace) option" where
  "members_loop 0 net str_of token list_id delay ps after ids tr = None"
| "members_loop (Suc fuel) net str_of token list_id delay ps after ids tr =
     (case http_default net
             (members_request token list_id (if truthy after then dict_set ps ''after'' after else ps)) tr of
        (None, tr1) \<Rightarrow> Some (Inr ids, tr1)
      | (Some rr, tr1) \<Rightarrow>
          if \<not> resp_ok rr \<or> status_code rr = 404 then Some (Inr ids, tr1)
          else (case members_page str_of ids rr of
                  Inl e \<Rightarrow> Some (Inl e, tr1)
                | Inr (ids', after') \<Rightarrow>
                    if \<not> truthy after' then Some (Inr ids', tr1)
                    else members_loop fuel net str_of token list_id delay
                           (if truthy after then dict_set ps ''after'' after else ps)
                           after' ids' (tr1 @ [Slept delay])))"

definition list_request :: "string \<Rightarrow> string \<Rightarrow> request" where
  "list_request token list_id =
     \<lparr>http_method = ''GET'', url = JStr (HS_BASE @ ''/crm/v3/lists/'' @ list_id),
      headers = hs_headers token, params = JNull, json_body = JNull\<rparr>"

text \<open>
  \<^verbatim>\<open>hs_get_list_member_ids\<close>: the lookup of the list first; no reply, a reply that is not
  ok and a status 404 raise \<^verbatim>\<open>RuntimeError("HubSpot list not found")\<close>.
\<close>

definition hs_get_list_member_ids :: "nat \<Rightarrow> network \<Rightarrow> (json \<Rightarrow> string) \<Rightarrow> string \<Rightarrow> string \<Rightarrow> rat \<Rightarrow>
    trace \<Rightarrow> ((pyerr + string list) \<times> trace) option" where
  "hs_get_list_member_ids fuel net str_of token list_id delay tr =
     (case http_default net (list_request token list_id) tr of
        (None, tr1) \<Rightarrow> Some (Inl RuntimeError, tr1)
      | (Some r, tr1) \<Rightarrow>
          if \<not> resp_ok r \<or> status_code r = 404 then Some (Inl RuntimeError, tr1)
          else (case raise_for_status r of
                  Inl e \<Rightarrow> Some (Inl e, tr1)
                | Inr _ \<Rightarrow> members_loop fuel net str_of token list_id delay
                             [(''limit'', JNum 100)] JNull [] tr1))"

text \<open>\<^verbatim>\<open>hs_batch_read_contacts\<close>: the chunks \<^verbatim>\<open>ids[i:i+100]\<close>, and the loop over them.\<close>

function chunks_of :: "nat \<Rightarrow> 'a list \<Rightarrow> 'a list list" where
  "chunks_of n xs = (if n = 0 \<or> xs = [] then [] else take n xs # chunks_of n (drop n xs))"
  by pat_completeness auto
termination
  by (relation "measure (\<lambda>(n, xs). length xs)") auto

definition batch_request :: "string \<Rightarrow> string list \<Rightarrow> request" where
  "batch_request token chunk =
     \<lparr>http_method = ''POST'', url = JStr (HS_BASE @ ''/crm/v3/objects/contacts/batch/read''),
      headers = hs_headers token, params = JNull,
      json_body = JDict [(''properties'', JList (map JStr [''email'', ''hubspot_owner_id'', ''firstname'', ''lastname''])),
                         (''inputs'', JList (map (\<lambda>x. JDict [(''id'', JStr x)]) chunk))]\<rparr>"

fun batch_loop :: "network \<Rightarrow> string \<Rightarrow> rat \<Rightarrow> json list \<Rightarrow> string list list \<Rightarrow> json list io" where
  "batch_loop net token delay out [] tr = (Inr out, tr)"
| "batch_loop net token delay out (chunk # rest) tr =
     (case http_default net (batch_request token chunk) tr of
        (None, tr1) \<Rightarrow> (Inr out, tr1)
      | (Some r, tr1) \<Rightarrow>
          if \<not> resp_ok r then (Inr out, tr1)
          else (case bindE (raise_for_status r) (\<lambda>_.
                     bindE (resp_json r) (\<lambda>j.
                     bindE (py_get_default j ''results'' (JList [])) py_iter)) of
                  Inl e \<Rightarrow> (Inl e, tr1)
                | Inr xs \<Rightarrow> batch_loop net token delay (out @ xs) rest (tr1 @ [Slept delay])))"

definition hs_batch_read_contacts :: "network \<Rightarrow> string \<Rightarrow> string list \<Rightarrow> rat \<Rightarrow> json list io" where
  "hs_batch_read_contacts net token ids delay tr =
     (if ids = [] then (Inr [], tr) else batch_loop net token delay [] (chunks_of 100 ids) tr)"

text \<open>
  Sets of values: \<^verbatim>\<open>s.add(x)\<close> raises for a list or a dict, and keeps the element it
  has when an equal one is added. A set is kept in the order of insertion here; the
  program sorts it before use.
\<close>

definition set_add :: "json list \<Rightarrow> json \<Rightarrow> pyerr + json list" where
  "set_add s x =
     (if \<not> hashable x then Inl TypeError
      else if key_of x \<in> set (map key_of s) then Inr s else Inr (s @ [x]))"

fun set_of_list :: "json list \<Rightarrow> json list \<Rightarrow> pyerr + json list" where
  "set_of_list s [] = Inr s"
| "set_of_list s (x # xs) = bindE (set_add s x) (\<lambda>s'. set_of_list s' xs)"

text \<open>\<^verbatim>\<open>(c.get("properties") or {}).get("hubspot_owner_id")\<close>.\<close>

definition contact_owner_id :: "json \<Rightarrow> pyerr + json" where
  "contact_owner_id c =
     bindE (py_get c ''properties'') (\<lambda>p. py_get (py_or p (JDict [])) ''hubspot_owner_id'')"

text \<open>The set comprehension for \<^verbatim>\<open>owner_ids\<close> in \<^verbatim>\<open>run_pipeline\<close>.\<close>

fun owner_ids_loop :: "json list \<Rightarrow> json list \<Rightarrow> pyerr + json list" where
  "owner_ids_loop s [] = Inr s"
| "owner_ids_loop s (c # cs) =
     bindE (contact_owner_id c) (\<lambda>oid.
       if truthy oid then bindE (set_add s oid) (\<lambda>s'. owner_ids_loop s' cs)
       else owner_ids_loop s cs)"

text \<open>
  \<^verbatim>\<open>sorted(xs)\<close> on values: strings sort among themselves, numbers (and booleans) among
  themselves, stably; comparing values of other or of mixed types raises.
\<close>

fun str_val :: "json \<Rightarrow> string option" where
  "str_val (JStr s) = Some s"
| "str_val _ = None"

fun num_val :: "json \<Rightarrow> int option" where
  "num_val (JNum n) = Some n"
| "num_val (JBool b) = Some (if b then 1 else 0)"
| "num_val _ = None"

definition py_sorted :: "json list \<Rightarrow> pyerr + json list" where
  "py_sorted xs =
     (if length xs \<le> 1 then Inr xs
      else if \<forall>x\<in>set xs. str_val x \<noteq> None then Inr (sort_key (\<lambda>x. the (str_val x)) xs)
      else if \<forall>x\<in>set xs. num_val x \<noteq> None then Inr (sort_key (\<lambda>x. the (num_val x)) xs)
      else Inl TypeError)"

text \<open>
  \<^verbatim>\<open>hs_owner_email_map\<close>. The body of the \<^verbatim>\<open>try\<close> for one owner: the entry to store, if
  any. An exception is caught by the caller, which stores nothing then.
\<close>

definition owner_entry :: "(json \<Rightarrow> string) \<Rightarrow> json \<Rightarrow> response \<Rightarrow> pyerr + (string \<times> string) option" where
  "owner_entry str_of oid r =
     bindE (raise_for_status r) (\<lambda>_.
     bindE (resp_json r) (\<lambda>j.
     bindE (py_get (py_or j (JDict [])) ''email'') (\<lambda>e.
     bindE (py_strip (py_or e (JStr []))) (\<lambda>s.
       if lower s \<noteq> []
       then bindE (py_get (py_or j (JDict [])) ''id'') (\<lambda>i. Inr (Some (str_of (py_or i oid), lower s)))
       else Inr None))))"

fun owners_map_loop :: "network \<Rightarrow> (json \<Rightarrow> string) \<Rightarrow> string \<Rightarrow> rat \<Rightarrow> (string \<times> string) list \<Rightarrow>
    json list \<Rightarrow> trace \<Rightarrow> (string \<times> string) list \<times> trace" where
  "owners_map_loop net str_of token delay mapping [] tr = (mapping, tr)"
| "owners_map_loop net str_of token delay mapping (oid # oids) tr =
     (case http_default net
             \<lparr>http_method = ''GET'', url = JStr (HS_BASE @ ''/crm/v3/owners/'' @ str_of oid),
              headers = hs_headers token, params = JNull, json_body = JNull\<rparr> tr of
        (None, tr1) \<Rightarrow> owners_map_loop net str_of token delay mapping oids tr1
      | (Some r, tr1) \<Rightarrow>
          if \<not> resp_ok r \<or> status_code r = 404
          then owners_map_loop net str_of token delay mapping oids tr1
          else owners_map_loop net str_of token delay
                 (case owner_entry str_of oid r of
                    Inr (Some (k, v)) \<Rightarrow> dict_set mapping k v
                  | _ \<Rightarrow> mapping)
                 oids (tr1 @ [Slept delay]))"

definition hs_owner_email_map :: "network \<Rightarrow> (json \<Rightarrow> string) \<Rightarrow> string \<Rightarrow> json list \<Rightarrow> rat \<Rightarrow>
    (string \<times> string) list io" where
  "hs_owner_email_map net str_of token owner_ids delay tr =
     (case bindE (set_of_list [] (filter truthy owner_ids)) py_sorted of
        Inl e \<Rightarrow> (Inl e, tr)
      | Inr unique_ids \<Rightarrow>
          (case owners_map_loop net str_of token delay [] unique_ids tr of
             (mapping, tr') \<Rightarrow> (Inr mapping, tr')))"

section \<open>The transcript fetcher\<close>

text \<open>\<^verbatim>\<open>r and r.status_code == 200\<close>, and \<^verbatim>\<open>r.json()\<close> of such a reply.\<close>

definition is_200 :: "response option \<Rightarrow> bool" where
  "is_200 ro = (case ro of None \<Rightarrow> False | Some r \<Rightarrow> resp_ok r \<and> status_code r = 200)"

definition json_of :: "response option \<Rightarrow> pyerr + json" where
  "json_of ro = (case ro of None \<Rightarrow> Inl AttributeError | Some r \<Rightarrow> resp_json r)"

text \<open>
  The last fallback of \<^verbatim>\<open>av_fetch_transcript_json\<close>:
  \<^verbatim>\<open>items = data.get("results", data) if isinstance(data, dict) else data\<close>, and the first
  element when \<^verbatim>\<open>items\<close> is a non-empty list, \<^verbatim>\<open>None\<close> otherwise.
\<close>

definition first_transcription :: "json \<Rightarrow> json" where
  "first_transcription data =
     (case (case data of
              JDict kvs \<Rightarrow> (case map_of kvs ''results'' of None \<Rightarrow> data | Some v \<Rightarrow> v)
            | _ \<Rightarrow> data) of
        JList (x # _) \<Rightarrow> x
      | _ \<Rightarrow> JNull)"

definition av_get :: "string \<Rightarrow> string \<Rightarrow> json \<Rightarrow> request" where
  "av_get key path ps =
     \<lparr>http_method = ''GET'', url = JStr (AV_BASE @ path), headers = av_headers key,
      params = ps, json_body = JNull\<rparr>"

definition av_fetch_transcript_json :: "network \<Rightarrow> (json \<Rightarrow> string) \<Rightarrow> string \<Rightarrow> json \<Rightarrow> json \<Rightarrow> json io" where
  "av_fetch_transcript_json net str_of key meeting_id transcription_uuid tr =
     (case http_default net
             (av_get key (''/v1/meetings/'' @ str_of meeting_id @ ''/transcript'')
                (JDict [(''format'', JStr ''json'')])) tr of
        (r, tr1) \<Rightarrow>
          if is_200 r then (json_of r, tr1)
          else (case (if truthy transcription_uuid
                      then (case http_default net
                                   (av_get key (''/v1/transcriptions/'' @ str_of transcription_uuid) JNull) tr1 of
                              (r2, tr2) \<Rightarrow> (if is_200 r2 then Some (json_of r2) else None, tr2))
                      else (None, tr1)) of
                  (Some res, tr2) \<Rightarrow> (res, tr2)
                | (None, tr2) \<Rightarrow>
                    (case http_default net
                            (av_get key (''/v1/meetings/'' @ str_of meeting_id @ ''/transcriptions'') JNull) tr2 of
                       (r3, tr3) \<Rightarrow>
                         if is_200 r3
                         then (bindE (json_of r3) (\<lambda>data. Inr (first_transcription data)), tr3)
                         else (Inr JNull, tr3))))"

section \<open>The run\<close>

text \<open>The summary \<^verbatim>\<open>results\<close>.\<close>

record summary =
  contacts_processed :: nat
  emails_found :: nat
  meetings_found :: nat
  transcripts_posted :: nat
  errors :: "string list"

text \<open>
  What a run takes from outside the program: the network, the built-in \<^verbatim>\<open>str\<close>, the
  library's \<^verbatim>\<open>datetime.fromisoformat\<close>, and the clock, read as the two dates of the
  window (\<^verbatim>\<open>frm\<close>, \<^verbatim>\<open>to\<close>), the \<^verbatim>\<open>cutoff\<close> and the time stamp of a delivery.
\<close>

record env =
  env_net :: network
  env_str :: "json \<Rightarrow> string"
  env_fromiso :: "string \<Rightarrow> int option"
  env_frm :: string
  env_to :: string
  env_cutoff :: int
  env_now :: "trace \<Rightarrow> string"

text \<open>The loop that fills \<^verbatim>\<open>cust_to_owner\<close>.\<close>

fun cust_to_owner_loop :: "(string \<times> string) list \<Rightarrow> (string \<times> string) list \<Rightarrow> json list \<Rightarrow>
    pyerr + (string \<times> string) list" where
  "cust_to_owner_loop owner_email_by_id acc [] = Inr acc"
| "cust_to_owner_loop owner_email_by_id acc (c # cs) =
     bindE (py_get c ''properties'') (\<lambda>p.
     bindE (py_get (py_or p (JDict [])) ''email'') (\<lambda>e.
     bindE (py_strip (py_or e (JStr []))) (\<lambda>es.
     bindE (py_get (py_or p (JDict [])) ''hubspot_owner_id'') (\<lambda>ow.
     bindE (py_strip (py_or ow (JStr []))) (\<lambda>oid.
       if lower es = [] then cust_to_owner_loop owner_email_by_id acc cs
       else (case map_of owner_email_by_id oid of
               None \<Rightarrow> cust_to_owner_loop owner_email_by_id acc cs
             | Some oe \<Rightarrow>
                 if oe \<noteq> [] then cust_to_owner_loop owner_email_by_id (dict_set acc (lower es) oe) cs
                 else cust_to_owner_loop owner_email_by_id acc cs))))))"

text \<open>
  \<^verbatim>\<open>emails = sorted(set(cust_to_owner.keys()))\<close>, restricted to \<^verbatim>\<open>only_emails\<close> when that
  list is given and not empty.
\<close>

definition leaf_emails :: "(string \<times> string) list \<Rightarrow> string list \<Rightarrow> string list" where
  "leaf_emails cust_to_owner only_emails =
     (if only_emails \<noteq> []
      then filter (\<lambda>e. e \<in> set (map (\<lambda>x. lower (strip x)) only_emails))
             (sort (remdups (map fst cust_to_owner)))
      else sort (remdups (map fst cust_to_owner)))"

text \<open>
  \<^verbatim>\<open>contacts_by_owner[cust_to_owner[ce]].append(ce)\<close> on the \<^verbatim>\<open>defaultdict(list)\<close>: a new owner
  goes last, with its first leaf.
\<close>

fun group_append :: "(string \<times> string list) list \<Rightarrow> string \<Rightarrow> string \<Rightarrow> (string \<times> string list) list" where
  "group_append [] k v = [(k, [v])]"
| "group_append ((k', vs) # g) k v =
     (if k' = k then (k', vs @ [v]) # g else (k', vs) # group_append g k v)"

fun contacts_by_owner_loop :: "(string \<times> string) list \<Rightarrow> (string \<times> string list) list \<Rightarrow> string list \<Rightarrow>
    (string \<times> string list) list" where
  "contacts_by_owner_loop cust_to_owner g [] = g"
| "contacts_by_owner_loop cust_to_owner g (ce # ces) =
     contacts_by_owner_loop cust_to_owner
       (case map_of cust_to_owner ce of None \<Rightarrow> g | Some ow \<Rightarrow> group_append g ow ce) ces"

text \<open>\<^verbatim>\<open>meeting_id = m.get("uuid") or m.get("id") or m.get("meetingId")\<close>.\<close>

definition meeting_id_of :: "json \<Rightarrow> pyerr + json" where
  "meeting_id_of m =
     bindE (py_get m ''uuid'') (\<lambda>a.
     bindE (py_get m ''id'') (\<lambda>b.
     bindE (py_get m ''meetingId'') (\<lambda>c. Inr (py_or (py_or a b) c))))"

text \<open>The body posted to the webhook.\<close>

definition delivery_payload :: "string \<Rightarrow> string \<Rightarrow> json \<Rightarrow> json \<Rightarrow> string \<Rightarrow> string \<Rightarrow> pyerr + json" where
  "delivery_payload organizer_email customer_email m meeting_id plain processed_at =
     bindE (py_get m ''subject'') (\<lambda>subject.
     bindE (py_get m ''url'') (\<lambda>u.
     bindE (py_get m ''app_url'') (\<lambda>au.
     bindE (py_get m ''start_at'') (\<lambda>s1.
     bindE (py_get m ''startTime'') (\<lambda>s2.
     bindE (py_get m ''start_time'') (\<lambda>s3.
     bindE (attendees_emails m) (\<lambda>atts.
       Inr (JDict [(''email'', JStr customer_email),
                   (''organizer_email'', JStr organizer_email),
                   (''meeting_id'', meeting_id),
                   (''meeting_subject'', subject),
                   (''meeting_url'', py_or u au),
                   (''start_at'', py_or (py_or s1 s2) s3),
                   (''attendees_emails'', JList (map JStr atts)),
                   (''transcript_text'', JStr plain),
                   (''meeting_data'', m),
                   (''source'', JStr ''hs_list_avoma_plaintext''),
                   (''processed_at'', JStr processed_at)]))))))))"

definition webhook_request :: "string \<Rightarrow> json \<Rightarrow> request" where
  "webhook_request webhook_url payload =
     \<lparr>http_method = ''POST'', url = JStr webhook_url,
      headers = [(''Content-Type'', ''application/json'')], params = JNull, json_body = payload\<rparr>"

text \<open>\<^verbatim>\<open>wr and wr.status_code in (200, 201, 202, 204)\<close>.\<close>

definition delivered :: "response option \<Rightarrow> bool" where
  "delivered wr =
     (case wr of None \<Rightarrow> False
      | Some r \<Rightarrow> resp_ok r \<and> status_code r \<in> set [200, 201, 202, 204])"

text \<open>
  \<^verbatim>\<open>f"Webhook failed for meeting {meeting_id}: {(wr.status_code if wr else 'no-response')}"\<close>.
\<close>

definition webhook_error :: "(json \<Rightarrow> string) \<Rightarrow> json \<Rightarrow> response option \<Rightarrow> string" where
  "webhook_error str_of meeting_id wr =
     ''Webhook failed for meeting '' @ str_of meeting_id @ '': '' @
       (case wr of None \<Rightarrow> ''no-response''
        | Some r \<Rightarrow> if resp_ok r then str_of (JNum (int (status_code r))) else ''no-response'')"

text \<open>
  The end of the loop body for a leaf that has a transcript text: the delivery, the
  count or the error entry, the sleep, and the addition to \<^verbatim>\<open>meetings_found\<close>.
\<close>

definition deliver :: "env \<Rightarrow> string \<Rightarrow> rat \<Rightarrow> json \<Rightarrow> json \<Rightarrow> nat \<Rightarrow> summary \<Rightarrow> summary io" where
  "deliver E webhook_url delay meeting_id payload n_filtered results tr =
     (case http_default (env_net E) (webhook_request webhook_url payload) tr of
        (wr, tr1) \<Rightarrow>
          (Inr ((if delivered wr
                 then results\<lparr>transcripts_posted := transcripts_posted results + 1\<rparr>
                 else results\<lparr>errors := errors results @ [webhook_error (env_str E) meeting_id wr]\<rparr>)
                \<lparr>meetings_found := meetings_found results + n_filtered\<rparr>),
           tr1 @ [Slept delay]))"

text \<open>
  The body of the loop \<^verbatim>\<open>for customer_email in customers\<close>. Each \<^verbatim>\<open>continue\<close> leaves the
  summary as it is.
\<close>

definition process_customer :: "env \<Rightarrow> string \<Rightarrow> string \<Rightarrow> rat \<Rightarrow> string \<Rightarrow> json list \<Rightarrow> summary \<Rightarrow> string \<Rightarrow>
    summary io" where
  "process_customer E avoma_api_key webhook_url delay organizer_email all_items results customer_email tr =
     (case filter_meetings (env_fromiso E) (env_cutoff E) organizer_email customer_email all_items of
        Inl e \<Rightarrow> (Inl e, tr)
      | Inr filtered \<Rightarrow>
          if filtered = [] then (Inr results, tr)
          else (case sort_by_start (env_fromiso E) filtered of
                  Inl e \<Rightarrow> (Inl e, tr)
                | Inr [] \<Rightarrow> (Inl IndexError, tr)
                | Inr (m # _) \<Rightarrow>
                    (case bindE (meeting_id_of m) (\<lambda>i.
                          bindE (py_get m ''transcription_uuid'') (\<lambda>u. Inr (i, u))) of
                       Inl e \<Rightarrow> (Inl e, tr)
                     | Inr (meeting_id, tuuid) \<Rightarrow>
                         if \<not> truthy meeting_id then (Inr results, tr)
                         else (case av_fetch_transcript_json (env_net E) (env_str E) avoma_api_key
                                      meeting_id tuuid tr of
                                 (Inl e, tr1) \<Rightarrow> (Inl e, tr1)
                               | (Inr t_json, tr1) \<Rightarrow>
                                   if \<not> truthy t_json then (Inr results, tr1)
                                   else (case transcript_json_to_text (env_str E) t_json of
                                           Inl e \<Rightarrow> (Inl e, tr1)
                                         | Inr plain \<Rightarrow>
                                             if plain = [] then (Inr results, tr1)
                                             else (case delivery_payload organizer_email customer_email m
                                                          meeting_id plain (env_now E tr1) of
                                                     Inl e \<Rightarrow> (Inl e, tr1)
                                                   | Inr payload \<Rightarrow>
                                                       deliver E webhook_url delay meeting_id payload
                                                         (length filtered) results tr1))))))"

fun customers_loop :: "env \<Rightarrow> string \<Rightarrow> string \<Rightarrow> rat \<Rightarrow> string \<Rightarrow> json list \<Rightarrow> summary \<Rightarrow> string list \<Rightarrow>
    summary io" where
  "customers_loop E avoma_api_key webhook_url delay organizer_email all_items results [] tr =
     (Inr results, tr)"
| "customers_loop E avoma_api_key webhook_url delay organizer_email all_items results (c # cs) tr =
     (case process_customer E avoma_api_key webhook_url delay organizer_email all_items results c tr of
        (Inl e, tr1) \<Rightarrow> (Inl e, tr1)
      | (Inr results', tr1) \<Rightarrow>
          customers_loop E avoma_api_key webhook_url delay organizer_email all_items results' cs tr1)"

text \<open>
  The loop \<^verbatim>\<open>for organizer_email, customers in contacts_by_owner.items()\<close>: one call of
  the fetcher, then the loop over the leaves with its result.
\<close>

fun owners_loop :: "env \<Rightarrow> string \<Rightarrow> string \<Rightarrow> int \<Rightarrow> int \<Rightarrow> rat \<Rightarrow> summary \<Rightarrow>
    (string \<times> string list) list \<Rightarrow> summary io" where
  "owners_loop E avoma_api_key webhook_url limit pages delay results [] tr = (Inr results, tr)"
| "owners_loop E avoma_api_key webhook_url limit pages delay results ((organizer_email, customers) # groups) tr =
     (case av_list_meetings_by_organizer (env_net E) avoma_api_key organizer_email
             (env_frm E) (env_to E) limit pages delay tr of
        (Inl e, tr1) \<Rightarrow> (Inl e, tr1)
      | (Inr all_items, tr1) \<Rightarrow>
          if all_items = []
          then owners_loop E avoma_api_key webhook_url limit pages delay results groups tr1
          else (case customers_loop E avoma_api_key webhook_url delay organizer_email all_items
                       results customers tr1 of
                  (Inl e, tr2) \<Rightarrow> (Inl e, tr2)
                | (Inr results', tr2) \<Rightarrow>
                    owners_loop E avoma_api_key webhook_url limit pages delay results' groups tr2))"

text \<open>\<^verbatim>\<open>run_pipeline\<close> from the point where the member ids are known.\<close>

definition pipeline_from_ids :: "env \<Rightarrow> string \<Rightarrow> string \<Rightarrow> string \<Rightarrow> string list \<Rightarrow> int \<Rightarrow> int \<Rightarrow> rat \<Rightarrow>
    string list \<Rightarrow> summary io" where
  "pipeline_from_ids E hubspot_token avoma_api_key webhook_url only_emails limit pages delay ids tr =
     (if ids = []
      then (Inr \<lparr>contacts_processed = length ids, emails_found = 0, meetings_found = 0,
                 transcripts_posted = 0, errors = []\<rparr>, tr)
      else (case hs_batch_read_contacts (env_net E) hubspot_token ids delay tr of
              (Inl e, tr1) \<Rightarrow> (Inl e, tr1)
            | (Inr contacts, tr1) \<Rightarrow>
                (case owner_ids_loop [] contacts of
                   Inl e \<Rightarrow> (Inl e, tr1)
                 | Inr owner_ids \<Rightarrow>
                     (case hs_owner_email_map (env_net E) (env_str E) hubspot_token owner_ids delay tr1 of
                        (Inl e, tr2) \<Rightarrow> (Inl e, tr2)
                      | (Inr owner_email_by_id, tr2) \<Rightarrow>
                          (case cust_to_owner_loop owner_email_by_id [] contacts of
                             Inl e \<Rightarrow> (Inl e, tr2)
                           | Inr cust_to_owner \<Rightarrow>
                               if leaf_emails cust_to_owner only_emails = []
                               then (Inr \<lparr>contacts_processed = length ids, emails_found = 0,
                                          meetings_found = 0, transcripts_posted = 0, errors = []\<rparr>, tr2)
                               else owners_loop E avoma_api_key webhook_url limit pages delay
                                      \<lparr>contacts_processed = length ids,
                                       emails_found = length (leaf_emails cust_to_owner only_emails),
                                       meetings_found = 0, transcripts_posted = 0, errors = []\<rparr>
                                      (contacts_by_owner_loop cust_to_owner []
                                         (leaf_emails cust_to_owner only_emails))
                                      tr2)))))"

text \<open>
  \<^verbatim>\<open>run_pipeline\<close>. The first argument bounds the iterations of the membership loop;
  \<open>None\<close> is a run that has not ended within the bound. The argument \<^verbatim>\<open>days\<close> enters
  through the window and the cutoff of the environment; \<^verbatim>\<open>only_emails\<close> is the empty list
  when the caller passes \<^verbatim>\<open>None\<close>.
\<close>

definition run_pipeline :: "nat \<Rightarrow> env \<Rightarrow> string \<Rightarrow> string \<Rightarrow> string \<Rightarrow> string \<Rightarrow> string list \<Rightarrow> int \<Rightarrow> int \<Rightarrow> rat \<Rightarrow>
    trace \<Rightarrow> ((pyerr + summary) \<times> trace) option" where
  "run_pipeline fuel E hubspot_token hubspot_list_id avoma_api_key webhook_url only_emails limit pages delay tr =
     (case hs_get_list_member_ids fuel (env_net E) (env_str E) hubspot_token hubspot_list_id delay tr of
        None \<Rightarrow> None
      | Some (Inl e, tr1) \<Rightarrow> Some (Inl e, tr1)
      | Some (Inr ids, tr1) \<Rightarrow>
          Some (pipeline_from_ids E hubspot_token avoma_api_key webhook_url only_emails
                  limit pages delay ids tr1))"

text \<open>The organizers of the fetcher calls recorded in a trace, in order.\<close>

definition fetches :: "trace \<Rightarrow> string list" where
  "fetches evs = concat (map (\<lambda>e. case e of Fetch org \<Rightarrow> [org] | _ \<Rightarrow> []) evs)"

text \<open>A step from one trace to a later one that adds no fetcher call.\<close>

definition quiet_step :: "trace \<Rightarrow> trace \<Rightarrow> bool" where
  "quiet_step tr tr' = (\<exists>evs. tr' = tr @ evs \<and> fetches evs = [])"

text \<open>Whether a trace holds a POST, which only a delivery to the webhook sends.\<close>

definition delivery_attempted :: "trace \<Rightarrow> bool" where
  "delivery_attempted evs = (\<exists>rq. Sent rq \<in> set evs \<and> http_method rq = ''POST'')"

text \<open>
  Example: a CRM list with two leaves of one owner, and the owner's meetings: three
  with the first leaf and one with the second, for which no transcript exists.
\<close>

definition ex_str :: "json \<Rightarrow> string" where
  "ex_str j = (case j of JStr s \<Rightarrow> s | JNum n \<Rightarrow> (if n = 200 then ''200'' else ''n'') | _ \<Rightarrow> ''v'')"

definition ex_reply :: "json \<Rightarrow> outcome" where
  "ex_reply j = Replies \<lparr>status_code = 200, body = Some j\<rparr>"

definition ex_contact :: "string \<Rightarrow> json" where
  "ex_contact email =
     JDict [(''id'', JStr ''c''),
            (''properties'', JDict [(''email'', JStr email), (''hubspot_owner_id'', JStr ''7'')])]"

definition ex_net :: network where
  "ex_net tr rq =
     (if url rq = JStr ''https://api.hubapi.com/crm/v3/lists/42'' then ex_reply (JDict [(''listId'', JStr ''42'')])
      else if url rq = JStr ''https://api.hubapi.com/crm/v3/lists/42/memberships''
        then ex_reply (JDict [(''results'', JList [JDict [(''recordId'', JStr ''1'')], JDict [(''recordId'', JStr ''2'')]])])
      else if url rq = JStr ''https://api.hubapi.com/crm/v3/objects/contacts/batch/read''
        then ex_reply (JDict [(''results'', JList [ex_contact ''Lead@y.io'', ex_contact ''second@y.io''])])
      else if url rq = JStr ''https://api.hubapi.com/crm/v3/owners/7''
        then ex_reply (JDict [(''id'', JStr ''7''), (''email'', JStr ''owner@x.io'')])
      else if url rq = JStr ''https://api.avoma.com/v1/meetings''
        then ex_reply (JDict [(''results'', JList [ex_day5, ex_nostart, ex_day2, ex_meeting ''ms'' ''second@y.io'' []])])
      else if url rq = JStr ''https://api.avoma.com/v1/meetings/m2/transcript''
        then ex_reply (JDict [(''text'', JStr ''hello world'')])
      else if url rq = JStr ''https://hook.example/in'' then Replies \<lparr>status_code = 202, body = None\<rparr>
      else Replies \<lparr>status_code = 404, body = None\<rparr>)"

definition ex_env :: env where
  "ex_env = \<lparr>env_net = ex_net, env_str = ex_str, env_fromiso = ex_fromiso,
             env_frm = ''2024-01-01'', env_to = ''2024-12-31'', env_cutoff = 0,
             env_now = (\<lambda>_. ''2024-12-31T00:00:00+00:00'')\<rparr>"

definition ex_run :: "((pyerr + summary) \<times> trace) option" where
  "ex_run = run_pipeline 2 ex_env ''tok'' ''42'' ''key'' ''https://hook.example/in'' [] 100 5 (1 / 2) []"


text \<open>The four meetings of the example server.\<close>

definition ex_items :: "json list" where
  "ex_items = [ex_day5, ex_nostart, ex_day2, ex_meeting ''ms'' ''second@y.io'' []]"

text \<open>The summary at the start of the loop over the organizers in the example.\<close>

definition ex_results :: summary where
  "ex_results = \<lparr>contacts_processed = 2, emails_found = 2, meetings_found = 0,
                 transcripts_posted = 0, errors = []\<rparr>"




section \<open>Properties of the normalizer\<close>




text \<open>
  C2. The claim is that the normalizer returns a string for every payload, also one
  whose \<^verbatim>\<open>segments\<close> value is not a list of dicts. The turn loop skips an entry that is
  not a dict; the loop over \<^verbatim>\<open>paragraphs\<close> and \<^verbatim>\<open>segments\<close> does not: on the payload
  \<^verbatim>\<open>{"segments": ["hello"]}\<close> the call \<^verbatim>\<open>it.get("speaker")\<close> raises AttributeError.
\<close>

theorem normalizer_raises_on_segment_strings:
  "transcript_json_to_text str_of (JDict [(''segments'', JList [JStr ''hello''])]) = Inl AttributeError"
  by (simp add: segment_lines_def iter_or_empty_def dict_get_def bindE_def)
















section \<open>Properties of the HTTP client\<close>

lemma retry_trace_0: "retry_trace rq s 0 = []"
  by (simp add: retry_trace_def)

lemma min_double: "min (min (s * 2) 12 * 2 ^ i) (12::rat) = min (s * 2 ^ Suc i) 12"
proof -
  have e: "s * 2 ^ Suc i = (s * 2) * 2 ^ i" by simp
  show ?thesis
  proof (cases "s * 2 \<le> 12")
    case True
    then have "min (s * 2) 12 = s * 2" by (rule min_absorb1)
    then show ?thesis by (simp only: e)
  next
    case False
    then have m: "min (s * 2) 12 = 12" by (simp add: min_def)
    have p: "(1::rat) \<le> 2 ^ i" by simp
    then have a: "(12::rat) \<le> 12 * 2 ^ i" by simp
    from False have "12 < s * 2" by simp
    then have "12 * 2 ^ i < (s * 2) * 2 ^ i"
      by (rule mult_strict_right_mono) simp
    with a have "12 < (s * 2) * 2 ^ i" by (rule le_less_trans)
    then have "min ((s * 2) * 2 ^ i) 12 = 12" by (simp add: min_def)
    moreover have "min (12 * 2 ^ i) (12::rat) = 12" using a by (rule min_absorb2)
    ultimately show ?thesis by (simp only: e m)
  qed
qed

lemma retry_trace_Suc:
  assumes "s \<le> 12"
  shows "retry_trace rq s (Suc j) = [Sent rq, Slept s] @ retry_trace rq (min (s * 2) 12) j"
proof -
  have "[0..<Suc j] = 0 # map Suc [0..<j]"
    by (simp add: upt_conv_Cons map_Suc_upt del: upt_Suc)
  then have "retry_trace rq s (Suc j) =
      [Sent rq, Slept (min s 12)] @ concat (map (\<lambda>i. [Sent rq, Slept (min (s * 2 ^ Suc i) 12)]) [0..<j])"
    by (simp add: retry_trace_def comp_def del: upt_Suc)
  also have "\<dots> = [Sent rq, Slept s] @ retry_trace rq (min (s * 2) 12) j"
    using assms by (simp add: retry_trace_def min_double del: power_Suc)
  finally show ?thesis .
qed

lemma http_attempts_char:
  "s \<le> 12 \<Longrightarrow> http_attempts net rq n s tr = (res, tr') \<Longrightarrow>
     (\<exists>j<n. \<exists>r. res = Some r \<and> \<not> retry_status (status_code r)
          \<and> net (tr @ retry_trace rq s j) rq = Replies r
          \<and> tr' = tr @ retry_trace rq s j @ [Sent rq]
          \<and> (\<forall>i<j. fails (net (tr @ retry_trace rq s i) rq)))
     \<or> (res = None \<and> tr' = tr @ retry_trace rq s n
          \<and> (\<forall>i<n. fails (net (tr @ retry_trace rq s i) rq)))"
proof (induction n arbitrary: s tr)
  case 0
  then show ?case by (simp add: retry_trace_0)
next
  case (Suc n)
  let ?s' = "min (s * 2) 12"
  let ?tr' = "tr @ [Sent rq, Slept s]"
  have s': "?s' \<le> 12" by simp
  have shift: "\<And>j. tr @ retry_trace rq s (Suc j) = ?tr' @ retry_trace rq ?s' j"
    using retry_trace_Suc [OF Suc.prems(1)] by simp
  show ?case
  proof (cases "fails (net tr rq)")
    case False
    then obtain r where r: "net tr rq = Replies r" "\<not> retry_status (status_code r)"
      by (cases "net tr rq") auto
    with Suc.prems(2) have "res = Some r" "tr' = tr @ [Sent rq]" by auto
    with r have "res = Some r \<and> \<not> retry_status (status_code r)
          \<and> net (tr @ retry_trace rq s 0) rq = Replies r
          \<and> tr' = tr @ retry_trace rq s 0 @ [Sent rq]
          \<and> (\<forall>i<0. fails (net (tr @ retry_trace rq s i) rq))"
      by (simp add: retry_trace_0)
    then show ?thesis by blast
  next
    case True
    then have rec: "http_attempts net rq n ?s' ?tr' = (res, tr')"
      using Suc.prems(2) by (cases "net tr rq") auto
    have lift: "\<And>j. (\<forall>i<j. fails (net (?tr' @ retry_trace rq ?s' i) rq))
        \<Longrightarrow> (\<forall>i<Suc j. fails (net (tr @ retry_trace rq s i) rq))"
    proof (intro allI impI)
      fix j i assume a: "\<forall>i<j. fails (net (?tr' @ retry_trace rq ?s' i) rq)" and "i < Suc j"
      show "fails (net (tr @ retry_trace rq s i) rq)"
      proof (cases i)
        case 0
        with True show ?thesis by (simp add: retry_trace_0)
      next
        case (Suc i')
        with a \<open>i < Suc j\<close> have "fails (net (?tr' @ retry_trace rq ?s' i') rq)" by simp
        then show ?thesis using shift [of i'] Suc by simp
      qed
    qed
    from Suc.IH [OF s' rec] show ?thesis
    proof
      assume "\<exists>j<n. \<exists>r. res = Some r \<and> \<not> retry_status (status_code r)
          \<and> net (?tr' @ retry_trace rq ?s' j) rq = Replies r
          \<and> tr' = ?tr' @ retry_trace rq ?s' j @ [Sent rq]
          \<and> (\<forall>i<j. fails (net (?tr' @ retry_trace rq ?s' i) rq))"
      then obtain j r where j: "j < n" "res = Some r" "\<not> retry_status (status_code r)"
          "net (?tr' @ retry_trace rq ?s' j) rq = Replies r"
          "tr' = ?tr' @ retry_trace rq ?s' j @ [Sent rq]"
          "\<forall>i<j. fails (net (?tr' @ retry_trace rq ?s' i) rq)"
        by blast
      have "Suc j < Suc n \<and> res = Some r \<and> \<not> retry_status (status_code r)
          \<and> net (tr @ retry_trace rq s (Suc j)) rq = Replies r
          \<and> tr' = tr @ retry_trace rq s (Suc j) @ [Sent rq]
          \<and> (\<forall>i<Suc j. fails (net (tr @ retry_trace rq s i) rq))"
        using j lift [OF j(6)] shift [of j] by (simp del: append_assoc add: append_assoc [symmetric])
      then show ?thesis by blast
    next
      assume "res = None \<and> tr' = ?tr' @ retry_trace rq ?s' n
          \<and> (\<forall>i<n. fails (net (?tr' @ retry_trace rq ?s' i) rq))"
      then have "res = None \<and> tr' = tr @ retry_trace rq s (Suc n)
          \<and> (\<forall>i<Suc n. fails (net (tr @ retry_trace rq s i) rq))"
        using lift [of n] shift [of n] by simp
      then show ?thesis by blast
    qed
  qed
qed


text \<open>
  C3. With the default arguments (5 attempts, first sleep 0.7): the call sends the
  request at most five times; every attempt before the last one sent has failed (raised,
  or replied with a status among 429, 500, 502, 503, 504) and the \<open>k\<close>-th failed attempt
  is followed by a sleep of \<open>min (0.7 * 2 ^ (k - 1)) 12\<close>; the first reply with any
  other status ends the call and is returned as it is; after five failed attempts the
  result is \<^verbatim>\<open>None\<close>. The call has no exceptional result.
\<close>

theorem http_request_retry_policy:
  assumes "http_request net rq 5 (7 / 10) tr = (res, tr')"
  shows "(\<exists>j<5. \<exists>r. res = Some r \<and> \<not> retry_status (status_code r)
            \<and> net (tr @ retry_trace rq (7 / 10) j) rq = Replies r
            \<and> tr' = tr @ retry_trace rq (7 / 10) j @ [Sent rq]
            \<and> (\<forall>i<j. fails (net (tr @ retry_trace rq (7 / 10) i) rq)))
       \<or> (res = None \<and> tr' = tr @ retry_trace rq (7 / 10) 5
            \<and> (\<forall>i<5. fails (net (tr @ retry_trace rq (7 / 10) i) rq)))"
proof -
  have "(7 / 10 :: rat) \<le> 12" by simp
  moreover have "http_attempts net rq 5 (7 / 10) tr = (res, tr')"
    using assms by (simp add: http_request_def)
  ultimately show ?thesis by (rule http_attempts_char)
qed

theorem http_request_retry_policy_witness:
  "http_request (\<lambda>tr rq. if length tr < 6 then Replies \<lparr>status_code = 503, body = None\<rparr>
                          else Replies \<lparr>status_code = 200, body = Some (JStr ''ok'')\<rparr>)
     \<lparr>http_method = ''GET'', url = JStr ''u'', headers = [], params = JNull, json_body = JNull\<rparr> 5 (7 / 10) []
   = (Some \<lparr>status_code = 200, body = Some (JStr ''ok'')\<rparr>,
      [Sent \<lparr>http_method = ''GET'', url = JStr ''u'', headers = [], params = JNull, json_body = JNull\<rparr>, Slept (7 / 10),
       Sent \<lparr>http_method = ''GET'', url = JStr ''u'', headers = [], params = JNull, json_body = JNull\<rparr>, Slept (7 / 5),
       Sent \<lparr>http_method = ''GET'', url = JStr ''u'', headers = [], params = JNull, json_body = JNull\<rparr>, Slept (14 / 5),
       Sent \<lparr>http_method = ''GET'', url = JStr ''u'', headers = [], params = JNull, json_body = JNull\<rparr>])
   \<and> (\<exists>j. j < 5 \<and>
        [Sent \<lparr>http_method = ''GET'', url = JStr ''u'', headers = [], params = JNull, json_body = JNull\<rparr>, Slept (7 / 10),
         Sent \<lparr>http_method = ''GET'', url = JStr ''u'', headers = [], params = JNull, json_body = JNull\<rparr>, Slept (7 / 5),
         Sent \<lparr>http_method = ''GET'', url = JStr ''u'', headers = [], params = JNull, json_body = JNull\<rparr>, Slept (14 / 5),
         Sent \<lparr>http_method = ''GET'', url = JStr ''u'', headers = [], params = JNull, json_body = JNull\<rparr>]
        = retry_trace \<lparr>http_method = ''GET'', url = JStr ''u'', headers = [], params = JNull, json_body = JNull\<rparr> (7 / 10) j
          @ [Sent \<lparr>http_method = ''GET'', url = JStr ''u'', headers = [], params = JNull, json_body = JNull\<rparr>])"
proof -
  let ?net = "\<lambda>(tr::trace) (rq::request). if length tr < 6 then Replies \<lparr>status_code = 503, body = None\<rparr>
                          else Replies \<lparr>status_code = 200, body = Some (JStr ''ok'')\<rparr>"
  let ?rq = "\<lparr>http_method = ''GET'', url = JStr ''u'', headers = [], params = JNull, json_body = JNull\<rparr>"
  let ?r = "\<lparr>status_code = 200, body = Some (JStr ''ok'')\<rparr>"
  let ?T = "[Sent ?rq, Slept (7 / 10), Sent ?rq, Slept (7 / 5), Sent ?rq, Slept (14 / 5), Sent ?rq]"
  have e: "http_request ?net ?rq 5 (7 / 10) [] = (Some ?r, ?T)"
    by (simp add: http_request_def eval_nat_numeral retry_status_def)
  from http_request_retry_policy [OF e]
  have "\<exists>j. j < 5 \<and> ?T = retry_trace ?rq (7 / 10) j @ [Sent ?rq]"
    by auto
  with e show ?thesis by blast
qed

section \<open>Properties of the meeting selection\<close>

lemma bindE_Inr: "bindE m f = Inr y \<longleftrightarrow> (\<exists>x. m = Inr x \<and> f x = Inr y)"
  by (cases m) (simp_all add: bindE_def)

lemma looks_like_call_completed: "looks_like_call m = Inr b \<Longrightarrow> b = call_completed m"
  by (cases m) (auto simp: looks_like_call_def bindE_Inr split: if_splits)

lemma keep_meeting_eligible:
  assumes "keep_meeting fromiso cutoff organizer_email customer_email m = Inr b"
  shows "b = eligible fromiso cutoff organizer_email customer_email m"
proof -
  from assms obtain atts org where
    a: "attendees_emails m = Inr atts" and o: "organizer_field m = Inr org"
    and rest: "(if \<not> (org = organizer_email \<or> organizer_email \<in> set atts) then Inr False
       else if customer_email \<notin> set atts then Inr False
       else bindE (looks_like_call m) (\<lambda>call.
         if \<not> call then Inr False
         else bindE (start_field m) (\<lambda>st.
           (case parse_iso fromiso st of
              Some dt \<Rightarrow> if dt < cutoff then Inr False else Inr True
            | None \<Rightarrow> Inr True)))) = Inr b"
    by (auto simp: keep_meeting_def bindE_Inr)
  have om: "organizer_matches organizer_email m \<longleftrightarrow> (org = organizer_email \<or> organizer_email \<in> set atts)"
    using a o by (auto simp: organizer_matches_def attendee_set_def)
  have la: "leaf_attends customer_email m \<longleftrightarrow> customer_email \<in> set atts"
    using a by (simp add: leaf_attends_def attendee_set_def)
  show ?thesis
  proof (cases "organizer_matches organizer_email m \<and> leaf_attends customer_email m")
    case False
    with rest om la show ?thesis by (auto simp: eligible_def split: if_splits)
  next
    case True
    with rest om la obtain call where c: "looks_like_call m = Inr call"
      and r2: "(if \<not> call then Inr False
         else bindE (start_field m) (\<lambda>st.
           (case parse_iso fromiso st of
              Some dt \<Rightarrow> if dt < cutoff then Inr False else Inr True
            | None \<Rightarrow> Inr True))) = Inr b"
      by (auto simp: bindE_Inr split: if_splits)
    have cc: "call = call_completed m" using c by (rule looks_like_call_completed)
    show ?thesis
    proof (cases call)
      case False
      with r2 cc True show ?thesis by (simp add: eligible_def)
    next
      case call: True
      with r2 have "\<exists>st. start_field m = Inr st \<and> (case parse_iso fromiso st of
              Some dt \<Rightarrow> if dt < cutoff then Inr False else Inr True
            | None \<Rightarrow> Inr True) = (Inr b :: pyerr + bool)"
        by (simp add: bindE_Inr)
      then obtain st where st: "start_field m = Inr st"
        and r3: "(case parse_iso fromiso st of
              Some dt \<Rightarrow> if dt < cutoff then Inr False else Inr True
            | None \<Rightarrow> Inr True) = (Inr b :: pyerr + bool)"
        by blast
      have "b = not_before_cutoff fromiso cutoff m"
        using st r3 by (auto simp: not_before_cutoff_def start_time_def split: option.splits if_splits)
      with True call cc show ?thesis by (simp add: eligible_def)
    qed
  qed
qed

lemma filter_meetings_eligible:
  "filter_meetings fromiso cutoff organizer_email customer_email ms = Inr kept \<Longrightarrow>
     kept = filter (eligible fromiso cutoff organizer_email customer_email) ms"
proof (induction ms arbitrary: kept)
  case Nil
  then show ?case by simp
next
  case (Cons m ms)
  from Cons.prems obtain keep rest where
    k: "keep_meeting fromiso cutoff organizer_email customer_email m = Inr keep"
    and r: "filter_meetings fromiso cutoff organizer_email customer_email ms = Inr rest"
    and e: "kept = (if keep then m # rest else rest)"
    by (auto simp: bindE_Inr)
  from keep_meeting_eligible [OF k] Cons.IH [OF r] e show ?case by simp
qed







lemma sort_key_of_start_key: "sort_key_of fromiso m = Inr k \<Longrightarrow> k = start_key fromiso m"
  by (auto simp: sort_key_of_def start_key_def start_time_def bindE_Inr)

lemma sort_key_of_dict: "sort_key_of fromiso (JDict kvs) = Inr (start_key fromiso (JDict kvs))"
  by (simp add: sort_key_of_def start_key_def start_time_def start_field_def bindE_def)

lemma sequenceE_Inr:
  "sequenceE rs = Inr xs \<Longrightarrow> rs = map Inr xs"
proof (induction rs arbitrary: xs)
  case Nil
  then show ?case by simp
next
  case (Cons r rs)
  from Cons.prems obtain y ys where "r = Inr y" "sequenceE rs = Inr ys" "xs = y # ys"
    by (auto split: sum.splits)
  with Cons.IH [of ys] show ?case by simp
qed

lemma sort_keys_Inr:
  assumes "sequenceE (map (sort_key_of fromiso) ms) = Inr ks"
  shows "ks = map (start_key fromiso) ms"
proof -
  from assms have e: "map (sort_key_of fromiso) ms = map Inr ks"
    by (simp add: sequenceE_Inr)
  then have len: "length ms = length ks" by (metis length_map)
  show ?thesis
  proof (rule nth_equalityI)
    show "length ks = length (map (start_key fromiso) ms)" using len by simp
  next
    fix i assume "i < length ks"
    with len have i: "i < length ms" by simp
    from e have "map (sort_key_of fromiso) ms ! i = map Inr ks ! i" by simp
    with i len have "sort_key_of fromiso (ms ! i) = Inr (ks ! i)" by simp
    then show "ks ! i = map (start_key fromiso) ms ! i"
      using i by (simp add: sort_key_of_start_key)
  qed
qed

lemma sort_keys_dicts:
  "\<forall>m\<in>set ms. \<exists>kvs. m = JDict kvs \<Longrightarrow>
     sequenceE (map (sort_key_of fromiso) ms) = Inr (map (start_key fromiso) ms)"
  by (induction ms) (auto simp: sort_key_of_dict)

lemma insort_key_zip:
  "\<forall>p\<in>set ps. fst p = f (snd p) \<Longrightarrow>
     map snd (insort_key fst (f x, x) ps) = insort_key f x (map snd ps)"
  by (induction ps) auto

lemma sort_key_zip:
  "map snd (sort_key fst (zip (map f xs) xs)) = sort_key f xs
   \<and> (\<forall>p\<in>set (sort_key fst (zip (map f xs) xs)). fst p = f (snd p))"
proof (induction xs)
  case Nil
  then show ?case by simp
next
  case (Cons x xs)
  then show ?case by (simp add: insort_key_zip set_insort_key)
qed

lemma sort_by_start_eq:
  assumes "sort_by_start fromiso ms = Inr sorted_ms"
  shows "sorted_ms = sort_key (start_key fromiso) ms"
proof -
  from assms obtain ks where k: "sequenceE (map (sort_key_of fromiso) ms) = Inr ks"
    and s: "sorted_ms = map snd (sort_key fst (zip ks ms))"
    by (auto simp: sort_by_start_def bindE_Inr)
  from sort_keys_Inr [OF k] s show ?thesis by (simp add: sort_key_zip)
qed

lemma sort_by_start_dicts:
  assumes "\<forall>m\<in>set ms. \<exists>kvs. m = JDict kvs"
  shows "sort_by_start fromiso ms = Inr (sort_key (start_key fromiso) ms)"
  using sort_keys_dicts [OF assms, of fromiso] by (simp add: sort_by_start_def bindE_def sort_key_zip)

lemma sort_key_head:
  assumes "sort_key f xs = y # ys"
  shows "\<exists>pre post. xs = pre @ y # post \<and> (\<forall>u\<in>set pre. f y < f u) \<and> (\<forall>u\<in>set post. f y \<le> f u)"
proof -
  have "sorted (map f (sort_key f xs))" by (rule sorted_sort_key)
  with assms have "\<forall>u\<in>set ys. f y \<le> f u" by simp
  moreover have "set xs = set (y # ys)" using assms by (metis set_sort)
  ultimately have le: "\<forall>u\<in>set xs. f y \<le> f u" by auto
  have "filter (\<lambda>u. f u = f y) xs = filter (\<lambda>u. f u = f y) (sort_key f xs)"
    by (simp add: sort_key_stable)
  also have "\<dots> = y # filter (\<lambda>u. f u = f y) ys" using assms by simp
  finally obtain pre post where p: "xs = pre @ y # post" "\<forall>u\<in>set pre. f u \<noteq> f y"
    by (auto simp: filter_eq_Cons_iff)
  have "\<forall>u\<in>set pre. f y < f u"
  proof
    fix u assume u: "u \<in> set pre"
    with p have "u \<in> set xs" "f u \<noteq> f y" by simp_all
    with le show "f y < f u" by (simp add: order.strict_iff_order)
  qed
  moreover from le p have "\<forall>u\<in>set post. f y \<le> f u" by simp
  ultimately show ?thesis using p(1) by blast
qed

lemma ex_filter:
  "filter_meetings ex_fromiso 0 ''owner@x.io'' ''lead@y.io'' [ex_day5, ex_other, ex_nostart, ex_day2]
   = Inr [ex_day5, ex_nostart, ex_day2]"
  by code_simp

lemma ex_start_times:
  "start_time ex_fromiso ex_day5 = Some 63850500000000000"
  "start_time ex_fromiso ex_day2 = Some 63850240800000000"
  "start_time ex_fromiso ex_nostart = None"
  "start_time ex_fromiso ex_maxstart = Some DT_MAX"
  by code_simp+

lemma filtered_dicts:
  assumes "filter_meetings fromiso cutoff organizer_email customer_email ms = Inr filtered"
  shows "\<forall>m\<in>set filtered. \<exists>kvs. m = JDict kvs"
proof
  fix m assume "m \<in> set filtered"
  with filter_meetings_eligible [OF assms] have "call_completed m"
    by (simp add: eligible_def)
  then show "\<exists>kvs. m = JDict kvs" by (cases m) simp_all
qed

text \<open>
  C5, amended. For a non-empty result of the filter in which every parseable start time
  is earlier than \<open>DT_MAX\<close> (the key the code gives a meeting without a parseable start
  time), the sort succeeds and its first element \<open>m0\<close>, the selected meeting, is this:
  when \<open>m0\<close> has a parseable start time, every meeting before it in fetch order starts
  strictly later or has no parseable start time, and every meeting after it starts no
  earlier or has none; when \<open>m0\<close> has no parseable start time, no meeting has one and
  \<open>m0\<close> is the first in fetch order.
\<close>

theorem earliest_start_selected:
  assumes f: "filter_meetings fromiso cutoff organizer_email customer_email ms = Inr filtered"
    and ne: "filtered \<noteq> []"
    and H: "\<forall>m\<in>set filtered. \<forall>dt. start_time fromiso m = Some dt \<longrightarrow> dt < DT_MAX"
  shows "\<exists>m0 rest pre post.
           sort_by_start fromiso filtered = Inr (m0 # rest) \<and> filtered = pre @ m0 # post \<and>
           (case start_time fromiso m0 of
              Some t0 \<Rightarrow>
                (\<forall>m\<in>set pre. \<forall>dt. start_time fromiso m = Some dt \<longrightarrow> t0 < dt) \<and>
                (\<forall>m\<in>set post. \<forall>dt. start_time fromiso m = Some dt \<longrightarrow> t0 \<le> dt)
            | None \<Rightarrow> pre = [] \<and> (\<forall>m\<in>set post. start_time fromiso m = None))"
proof -
  let ?k = "start_key fromiso"
  have s: "sort_by_start fromiso filtered = Inr (sort_key ?k filtered)"
    using filtered_dicts [OF f] by (rule sort_by_start_dicts)
  from ne have "sort_key ?k filtered \<noteq> []"
    by (metis length_sort list.size(3) length_0_conv)
  then obtain m0 rest where mr: "sort_key ?k filtered = m0 # rest"
    by (cases "sort_key ?k filtered") auto
  from sort_key_head [OF mr] obtain pre post where
    p: "filtered = pre @ m0 # post" and lt: "\<forall>u\<in>set pre. ?k m0 < ?k u"
    and le: "\<forall>u\<in>set post. ?k m0 \<le> ?k u"
    by blast
  have key_some: "\<And>m dt. start_time fromiso m = Some dt \<Longrightarrow> ?k m = dt"
    by (simp add: start_key_def)
  have key_none: "\<And>m. start_time fromiso m = None \<Longrightarrow> ?k m = DT_MAX"
    by (simp add: start_key_def)
  have key_le: "\<And>m. m \<in> set filtered \<Longrightarrow> ?k m \<le> DT_MAX"
  proof -
    fix m assume "m \<in> set filtered"
    with H show "?k m \<le> DT_MAX"
      by (cases "start_time fromiso m") (auto simp: start_key_def dest: less_imp_le)
  qed
  have sel: "(case start_time fromiso m0 of
              Some t0 \<Rightarrow>
                (\<forall>m\<in>set pre. \<forall>dt. start_time fromiso m = Some dt \<longrightarrow> t0 < dt) \<and>
                (\<forall>m\<in>set post. \<forall>dt. start_time fromiso m = Some dt \<longrightarrow> t0 \<le> dt)
            | None \<Rightarrow> pre = [] \<and> (\<forall>m\<in>set post. start_time fromiso m = None))"
  proof (cases "start_time fromiso m0")
    case (Some t0)
    then have k0: "?k m0 = t0" by (rule key_some)
    from lt le k0 key_some Some show ?thesis by (simp add: Ball_def) metis
  next
    case None
    then have k0: "?k m0 = DT_MAX" by (rule key_none)
    have "pre = []"
    proof (rule ccontr)
      assume "pre \<noteq> []"
      then obtain u where u: "u \<in> set pre" by (cases pre) auto
      with lt k0 have "DT_MAX < ?k u" by simp
      moreover from u p have "?k u \<le> DT_MAX" by (simp add: key_le)
      ultimately show False by simp
    qed
    moreover have "\<forall>m\<in>set post. start_time fromiso m = None"
    proof
      fix m assume m: "m \<in> set post"
      show "start_time fromiso m = None"
      proof (cases "start_time fromiso m")
        case (Some dt)
        with m p H have "dt < DT_MAX" by auto
        moreover from le m k0 key_some [OF Some] have "DT_MAX \<le> dt" by auto
        ultimately show ?thesis by simp
      qed simp
    qed
    ultimately show ?thesis using None by simp
  qed
  from s mr have "sort_by_start fromiso filtered = Inr (m0 # rest)" by simp
  with p sel show ?thesis by (intro exI [of _ m0] exI [of _ rest] exI [of _ pre] exI [of _ post]) simp
qed

theorem earliest_start_selected_witness:
  "filter_meetings ex_fromiso 0 ''owner@x.io'' ''lead@y.io'' [ex_day5, ex_other, ex_nostart, ex_day2]
     = Inr [ex_day5, ex_nostart, ex_day2]
   \<and> sort_by_start ex_fromiso [ex_day5, ex_nostart, ex_day2] = Inr [ex_day2, ex_day5, ex_nostart]
   \<and> (\<exists>m0 rest pre post.
         sort_by_start ex_fromiso [ex_day5, ex_nostart, ex_day2] = Inr (m0 # rest)
         \<and> [ex_day5, ex_nostart, ex_day2] = pre @ m0 # post)"
proof -
  have H: "\<forall>m\<in>set [ex_day5, ex_nostart, ex_day2]. \<forall>dt. start_time ex_fromiso m = Some dt \<longrightarrow> dt < DT_MAX"
    by (simp add: ex_start_times DT_MAX_def)
  have ne: "[ex_day5, ex_nostart, ex_day2] \<noteq> []" by simp
  have s: "sort_by_start ex_fromiso [ex_day5, ex_nostart, ex_day2] = Inr [ex_day2, ex_day5, ex_nostart]"
    by code_simp
  from earliest_start_selected [OF ex_filter ne H] s ex_filter show ?thesis by blast
qed

text \<open>
  C5, as stated, fails when a start time parses to \<open>DT_MAX\<close> itself: the keys tie, the
  stable sort keeps the fetch order, and the meeting without a start time is selected
  although another meeting has a parseable one.
\<close>

theorem unparseable_before_parseable_counterexample:
  "filter_meetings ex_fromiso 0 ''owner@x.io'' ''lead@y.io'' [ex_nostart, ex_maxstart]
     = Inr [ex_nostart, ex_maxstart]
   \<and> sort_by_start ex_fromiso [ex_nostart, ex_maxstart] = Inr [ex_nostart, ex_maxstart]
   \<and> start_time ex_fromiso ex_nostart = None
   \<and> start_time ex_fromiso ex_maxstart = Some DT_MAX"
  by (intro conjI; code_simp)



section \<open>Properties of the meeting fetcher\<close>

lemma http_attempts_trace:
  "http_attempts net rq n s tr = (r, tr') \<Longrightarrow>
     \<exists>evs. tr' = tr @ evs \<and> (\<forall>e\<in>set evs. e = Sent rq \<or> (\<exists>d. e = Slept d))
          \<and> (0 < n \<longrightarrow> (\<exists>evs'. evs = Sent rq # evs'))"
proof (induction n arbitrary: s tr)
  case 0
  then show ?case by simp
next
  case (Suc n)
  show ?case
  proof (cases "fails (net tr rq)")
    case False
    then obtain resp where "net tr rq = Replies resp" "\<not> retry_status (status_code resp)"
      by (cases "net tr rq") auto
    with Suc.prems have "tr' = tr @ [Sent rq]" by auto
    then show ?thesis by simp
  next
    case True
    then have "http_attempts net rq n (min (s * 2) 12) (tr @ [Sent rq, Slept s]) = (r, tr')"
      using Suc.prems by (cases "net tr rq") auto
    from Suc.IH [OF this] obtain evs where
      "tr' = (tr @ [Sent rq, Slept s]) @ evs" "\<forall>e\<in>set evs. e = Sent rq \<or> (\<exists>d. e = Slept d)"
      by blast
    then have "tr' = tr @ (Sent rq # Slept s # evs)
        \<and> (\<forall>e\<in>set (Sent rq # Slept s # evs). e = Sent rq \<or> (\<exists>d. e = Slept d))"
      by auto
    then show ?thesis by blast
  qed
qed

lemma http_default_trace:
  assumes "http_default net rq tr = (r, tr')"
  shows "\<exists>evs. tr' = tr @ Sent rq # evs \<and> (\<forall>e\<in>set evs. e = Sent rq \<or> (\<exists>d. e = Slept d))"
proof -
  from assms have "http_attempts net rq 5 (7 / 10) tr = (r, tr')"
    by (simp add: http_default_def http_request_def)
  from http_attempts_trace [OF this] obtain evs evs' where
    e: "tr' = tr @ evs" "\<forall>e\<in>set evs. e = Sent rq \<or> (\<exists>d. e = Slept d)" "evs = Sent rq # evs'"
    by auto
  then have "tr' = tr @ Sent rq # evs' \<and> (\<forall>e\<in>set evs'. e = Sent rq \<or> (\<exists>d. e = Slept d))"
    by auto
  then show ?thesis by blast
qed








section \<open>Properties of the run: what the trace records\<close>

lemma fetches_append: "fetches (a @ b) = fetches a @ fetches b"
  by (simp add: fetches_def)

lemma fetches_simps:
  "fetches [] = []"
  "fetches (Sent rq # evs) = fetches evs"
  "fetches (Slept d # evs) = fetches evs"
  "fetches (Fetch org # evs) = org # fetches evs"
  by (simp_all add: fetches_def)


lemma quiet_trans: "quiet_step a b \<Longrightarrow> quiet_step b c \<Longrightarrow> quiet_step a c"
  by (auto simp: quiet_step_def fetches_append)


lemma quiet_events:
  assumes "\<forall>e\<in>set evs. (\<exists>rq. e = Sent rq) \<or> (\<exists>d. e = Slept d)"
  shows "fetches evs = []"
  using assms by (induction evs) (auto simp: fetches_simps)

lemma http_default_quiet:
  assumes "http_default net rq tr = (r, tr')"
  shows "quiet_step tr tr'"
proof -
  from http_default_trace [OF assms] obtain evs where
    e: "tr' = tr @ Sent rq # evs" "\<forall>e\<in>set evs. e = Sent rq \<or> (\<exists>d. e = Slept d)"
    by blast
  then have "fetches (Sent rq # evs) = []"
    by (intro quiet_events) auto
  with e(1) show ?thesis unfolding quiet_step_def by blast
qed




lemma av_fetch_transcript_quiet:
  assumes "av_fetch_transcript_json net str_of key meeting_id tuuid tr = (res, tr')"
  shows "quiet_step tr tr'"
proof -
  let ?rq1 = "av_get key (''/v1/meetings/'' @ str_of meeting_id @ ''/transcript'') (JDict [(''format'', JStr ''json'')])"
  let ?rq2 = "av_get key (''/v1/transcriptions/'' @ str_of tuuid) JNull"
  let ?rq3 = "av_get key (''/v1/meetings/'' @ str_of meeting_id @ ''/transcriptions'') JNull"
  obtain r1 t1 where h1: "http_default net ?rq1 tr = (r1, t1)"
    by (cases "http_default net ?rq1 tr") auto
  obtain r2 t2 where h2: "http_default net ?rq2 t1 = (r2, t2)"
    by (cases "http_default net ?rq2 t1") auto
  obtain r3 t3 where h3: "http_default net ?rq3 t1 = (r3, t3)"
    by (cases "http_default net ?rq3 t1") auto
  obtain r4 t4 where h4: "http_default net ?rq3 t2 = (r4, t4)"
    by (cases "http_default net ?rq3 t2") auto
  note q1 = http_default_quiet [OF h1]
  note q2 = quiet_trans [OF q1 http_default_quiet [OF h2]]
  note q3 = quiet_trans [OF q1 http_default_quiet [OF h3]]
  note q4 = quiet_trans [OF q2 http_default_quiet [OF h4]]
  from assms h1 h2 h3 h4 have "tr' = t1 \<or> tr' = t2 \<or> tr' = t3 \<or> tr' = t4"
    by (auto simp: av_fetch_transcript_json_def split: if_splits prod.splits option.splits)
  with q1 q2 q3 q4 show ?thesis by blast
qed

lemma av_fetch_transcript_no_post:
  assumes "av_fetch_transcript_json net str_of key meeting_id tuuid tr = (res, tr')"
  shows "\<exists>evs. tr' = tr @ evs \<and> \<not> delivery_attempted evs"
proof -
  let ?rq1 = "av_get key (''/v1/meetings/'' @ str_of meeting_id @ ''/transcript'') (JDict [(''format'', JStr ''json'')])"
  let ?rq2 = "av_get key (''/v1/transcriptions/'' @ str_of tuuid) JNull"
  let ?rq3 = "av_get key (''/v1/meetings/'' @ str_of meeting_id @ ''/transcriptions'') JNull"
  have step: "\<And>rq t r t'. http_default net rq t = (r, t') \<Longrightarrow> http_method rq = ''GET'' \<Longrightarrow>
      \<exists>evs. t' = t @ evs \<and> \<not> delivery_attempted evs"
  proof -
    fix rq t r t' assume h: "http_default net rq t = (r, t')" and g: "http_method rq = ''GET''"
    from http_default_trace [OF h] obtain evs where
      e: "t' = t @ Sent rq # evs" "\<forall>e\<in>set evs. e = Sent rq \<or> (\<exists>d. e = Slept d)" by blast
    with g have "\<not> delivery_attempted (Sent rq # evs)"
      by (auto simp: delivery_attempted_def)
    with e(1) show "\<exists>evs. t' = t @ evs \<and> \<not> delivery_attempted evs" by blast
  qed
  have comp: "\<And>a b c. \<exists>evs. b = a @ evs \<and> \<not> delivery_attempted evs \<Longrightarrow>
      \<exists>evs. c = b @ evs \<and> \<not> delivery_attempted evs \<Longrightarrow> \<exists>evs. c = a @ evs \<and> \<not> delivery_attempted evs"
    by (auto simp: delivery_attempted_def)
  have g: "http_method ?rq1 = ''GET''" "http_method ?rq2 = ''GET''" "http_method ?rq3 = ''GET''"
    by (simp_all add: av_get_def)
  obtain r1 t1 where h1: "http_default net ?rq1 tr = (r1, t1)"
    by (cases "http_default net ?rq1 tr") auto
  obtain r2 t2 where h2: "http_default net ?rq2 t1 = (r2, t2)"
    by (cases "http_default net ?rq2 t1") auto
  obtain r3 t3 where h3: "http_default net ?rq3 t1 = (r3, t3)"
    by (cases "http_default net ?rq3 t1") auto
  obtain r4 t4 where h4: "http_default net ?rq3 t2 = (r4, t4)"
    by (cases "http_default net ?rq3 t2") auto
  note q1 = step [OF h1 g(1)]
  note q2 = comp [OF q1 step [OF h2 g(2)]]
  note q3 = comp [OF q1 step [OF h3 g(3)]]
  note q4 = comp [OF q2 step [OF h4 g(3)]]
  from assms h1 h2 h3 h4 have "tr' = t1 \<or> tr' = t2 \<or> tr' = t3 \<or> tr' = t4"
    by (auto simp: av_fetch_transcript_json_def split: if_splits prod.splits option.splits)
  with q1 q2 q3 q4 show ?thesis by blast
qed

lemma deliver_result:
  "\<exists>wr tr1 evs.
     http_default (env_net E) (webhook_request webhook_url payload) tr = (wr, tr1)
     \<and> tr1 = tr @ Sent (webhook_request webhook_url payload) # evs
     \<and> fetches evs = []
     \<and> deliver E webhook_url delay meeting_id payload n results tr
        = (Inr ((if delivered wr
                 then results\<lparr>transcripts_posted := transcripts_posted results + 1\<rparr>
                 else results\<lparr>errors := errors results @ [webhook_error (env_str E) meeting_id wr]\<rparr>)
                \<lparr>meetings_found := meetings_found results + n\<rparr>),
           tr1 @ [Slept delay])"
proof -
  obtain wr tr1 where h: "http_default (env_net E) (webhook_request webhook_url payload) tr = (wr, tr1)"
    by (cases "http_default (env_net E) (webhook_request webhook_url payload) tr") auto
  from http_default_trace [OF h] obtain evs where
    e: "tr1 = tr @ Sent (webhook_request webhook_url payload) # evs"
      "\<forall>e\<in>set evs. e = Sent (webhook_request webhook_url payload) \<or> (\<exists>d. e = Slept d)" by blast
  then have "fetches evs = []" by (intro quiet_events) auto
  with h e(1) show ?thesis by (simp add: deliver_def)
qed


text \<open>The outcomes of the loop body for one leaf, by the point where it ends.\<close>

lemma process_customer_cases:
  assumes "process_customer E key webhook_url delay org all_items results c tr = (res, tr')"
  shows "(\<exists>e. res = Inl e \<and> (\<exists>evs. tr' = tr @ evs \<and> \<not> delivery_attempted evs \<and> fetches evs = []))
       \<or> (res = Inr results \<and> (\<exists>evs. tr' = tr @ evs \<and> \<not> delivery_attempted evs \<and> fetches evs = []))
       \<or> (\<exists>filtered meeting_id payload tr1.
             filter_meetings (env_fromiso E) (env_cutoff E) org c all_items = Inr filtered
             \<and> quiet_step tr tr1
             \<and> (res, tr') = deliver E webhook_url delay meeting_id payload (length filtered) results tr1)"
proof -
  have early: "tr' = tr \<and> ((\<exists>e. res = Inl e) \<or> res = Inr results) \<Longrightarrow> ?thesis"
  proof -
    assume a: "tr' = tr \<and> ((\<exists>e. res = Inl e) \<or> res = Inr results)"
    have "tr = tr @ [] \<and> \<not> delivery_attempted [] \<and> fetches [] = []"
      by (simp add: delivery_attempted_def fetches_simps)
    with a show ?thesis by blast
  qed
  show ?thesis
  proof (cases "filter_meetings (env_fromiso E) (env_cutoff E) org c all_items")
    case (Inl e)
    with assms have "tr' = tr \<and> ((\<exists>e. res = Inl e) \<or> res = Inr results)"
      by (auto simp: process_customer_def)
    then show ?thesis by (rule early)
  next
    case f: (Inr filtered)
    show ?thesis
    proof (cases "filtered = []")
      case True
      with assms f have "tr' = tr \<and> ((\<exists>e. res = Inl e) \<or> res = Inr results)"
        by (auto simp: process_customer_def)
      then show ?thesis by (rule early)
    next
      case ne: False
      show ?thesis
      proof (cases "sort_by_start (env_fromiso E) filtered")
        case (Inl e)
        with assms f ne have "tr' = tr \<and> ((\<exists>e. res = Inl e) \<or> res = Inr results)"
          by (auto simp: process_customer_def)
        then show ?thesis by (rule early)
      next
        case s: (Inr sorted_ms)
        show ?thesis
        proof (cases sorted_ms)
          case Nil
          with assms f ne s have "tr' = tr \<and> ((\<exists>e. res = Inl e) \<or> res = Inr results)"
            by (auto simp: process_customer_def)
          then show ?thesis by (rule early)
        next
          case (Cons m rest)
          show ?thesis
          proof (cases "bindE (meeting_id_of m) (\<lambda>i. bindE (py_get m ''transcription_uuid'') (\<lambda>u. Inr (i, u)))")
            case (Inl e)
            with assms f ne s Cons have "tr' = tr \<and> ((\<exists>e. res = Inl e) \<or> res = Inr results)"
              by (auto simp: process_customer_def)
            then show ?thesis by (rule early)
          next
            case (Inr pr)
            obtain meeting_id tuuid where pr: "pr = (meeting_id, tuuid)" by (cases pr) auto
            show ?thesis
            proof (cases "truthy meeting_id")
              case False
              with assms f ne s Cons Inr pr have "tr' = tr \<and> ((\<exists>e. res = Inl e) \<or> res = Inr results)"
                by (auto simp: process_customer_def)
              then show ?thesis by (rule early)
            next
              case mid: True
              obtain r1 tr1 where a: "av_fetch_transcript_json (env_net E) (env_str E) key meeting_id tuuid tr = (r1, tr1)"
                by (cases "av_fetch_transcript_json (env_net E) (env_str E) key meeting_id tuuid tr") auto
              from av_fetch_transcript_no_post [OF a] obtain evs where
                ev: "tr1 = tr @ evs" "\<not> delivery_attempted evs" by blast
              have qs: "quiet_step tr tr1" using a by (rule av_fetch_transcript_quiet)
              with ev(1) have "fetches evs = []" unfolding quiet_step_def by auto
              with ev have q: "\<exists>evs. tr1 = tr @ evs \<and> \<not> delivery_attempted evs \<and> fetches evs = []"
                by blast
              from assms f ne s Cons Inr pr mid a
              have body: "(case r1 of Inl e \<Rightarrow> (Inl e, tr1)
                 | Inr t_json \<Rightarrow>
                     if \<not> truthy t_json then (Inr results, tr1)
                     else (case transcript_json_to_text (env_str E) t_json of
                             Inl e \<Rightarrow> (Inl e, tr1)
                           | Inr plain \<Rightarrow>
                               if plain = [] then (Inr results, tr1)
                               else (case delivery_payload org c m meeting_id plain (env_now E tr1) of
                                       Inl e \<Rightarrow> (Inl e, tr1)
                                     | Inr payload \<Rightarrow>
                                         deliver E webhook_url delay meeting_id payload (length filtered) results tr1)))
                    = (res, tr')"
                by (simp add: process_customer_def)
              show ?thesis
              proof (cases "\<exists>payload. deliver E webhook_url delay meeting_id payload (length filtered) results tr1 = (res, tr')")
                case True
                then obtain payload where
                  "(res, tr') = deliver E webhook_url delay meeting_id payload (length filtered) results tr1"
                  by (metis (full_types))
                with f qs show ?thesis by blast
              next
                case False
                with body have "tr' = tr1 \<and> ((\<exists>e. res = Inl e) \<or> res = Inr results)"
                  by (auto split: sum.splits if_splits simp del: transcript_json_to_text.simps)
                with q show ?thesis by blast
              qed
            qed
          qed
        qed
      qed
    qed
  qed
qed















section \<open>Properties of the run: one fetch for each organizer\<close>



lemma ex_run_result:
  "map_option fst ex_run
   = Some (Inr \<lparr>contacts_processed = 2, emails_found = 2, meetings_found = 3,
                 transcripts_posted = 1, errors = []\<rparr>)"
  by code_simp




section \<open>Properties of the run: the counter of meetings found\<close>

lemma webhook_is_post: "http_method (webhook_request webhook_url payload) = ''POST''"
  by (simp add: webhook_request_def)

text \<open>
  C10. When the loop body for a leaf returns, \<^verbatim>\<open>meetings_found\<close> has grown by the number of
  the leaf's eligible meetings if a delivery to the webhook was attempted, and the
  summary is unchanged if none was. In particular the summary is unchanged when the
  selected meeting has no identifier, when the transcript fetch returns nothing, and
  when the normalized text is empty.
\<close>

theorem meetings_found_only_for_delivered_pairs:
  assumes p: "process_customer E key webhook_url delay org all_items results c tr = (Inr results', tr')"
    and f: "filter_meetings (env_fromiso E) (env_cutoff E) org c all_items = Inr filtered"
  shows "(\<exists>evs. tr' = tr @ evs
            \<and> (if delivery_attempted evs
                then meetings_found results' = meetings_found results + length filtered
                else results' = results))
       \<and> (\<forall>m rest mid u.
             filtered \<noteq> [] \<and> sort_by_start (env_fromiso E) filtered = Inr (m # rest)
             \<and> meeting_id_of m = Inr mid \<and> py_get m ''transcription_uuid'' = Inr u
             \<longrightarrow> (\<not> truthy mid \<longrightarrow> results' = results)
               \<and> (\<forall>t_json tr1.
                     truthy mid
                     \<and> av_fetch_transcript_json (env_net E) (env_str E) key mid u tr = (Inr t_json, tr1)
                     \<and> (\<not> truthy t_json \<or> transcript_json_to_text (env_str E) t_json = Inr [])
                     \<longrightarrow> results' = results))"
proof
  from process_customer_cases [OF p]
  consider (skip) evs where "Inr results' = (Inr results :: pyerr + summary)" "tr' = tr @ evs" "\<not> delivery_attempted evs"
    | (deliv) filtered' meeting_id payload tr1 where
        "filter_meetings (env_fromiso E) (env_cutoff E) org c all_items = Inr filtered'"
        "quiet_step tr tr1"
        "(Inr results', tr') = deliver E webhook_url delay meeting_id payload (length filtered') results tr1"
    by blast
  then show "\<exists>evs. tr' = tr @ evs
            \<and> (if delivery_attempted evs
                then meetings_found results' = meetings_found results + length filtered
                else results' = results)"
  proof cases
    case skip
    then have "tr' = tr @ evs \<and> (if delivery_attempted evs
                then meetings_found results' = meetings_found results + length filtered
                else results' = results)" by simp
    then show ?thesis by blast
  next
    case deliv
    from deliv(1) f have ff: "filtered' = filtered" by simp
    from deliv(2) obtain evs0 where e0: "tr1 = tr @ evs0" unfolding quiet_step_def by blast
    from deliver_result [of E webhook_url payload tr1 delay meeting_id "length filtered'" results] deliv(3)
    obtain wr t2 evs where
      t2: "t2 = tr1 @ Sent (webhook_request webhook_url payload) # evs"
      and r: "(Inr results', tr') =
         (Inr ((if delivered wr
                 then results\<lparr>transcripts_posted := transcripts_posted results + 1\<rparr>
                 else results\<lparr>errors := errors results @ [webhook_error (env_str E) meeting_id wr]\<rparr>)
                \<lparr>meetings_found := meetings_found results + length filtered'\<rparr>) :: pyerr + summary,
           t2 @ [Slept delay])"
      by auto
    from r have mf: "meetings_found results' = meetings_found results + length filtered"
      using ff by auto
    let ?evs = "evs0 @ Sent (webhook_request webhook_url payload) # evs @ [Slept delay]"
    from r t2 e0 have "tr' = tr @ ?evs" by simp
    moreover have "delivery_attempted ?evs"
      unfolding delivery_attempted_def using webhook_is_post [of webhook_url payload] by auto
    ultimately have "tr' = tr @ ?evs \<and> (if delivery_attempted ?evs
                then meetings_found results' = meetings_found results + length filtered
                else results' = results)"
      using mf by simp
    then show ?thesis by blast
  qed
next
  show "\<forall>m rest mid u.
             filtered \<noteq> [] \<and> sort_by_start (env_fromiso E) filtered = Inr (m # rest)
             \<and> meeting_id_of m = Inr mid \<and> py_get m ''transcription_uuid'' = Inr u
             \<longrightarrow> (\<not> truthy mid \<longrightarrow> results' = results)
               \<and> (\<forall>t_json tr1.
                     truthy mid
                     \<and> av_fetch_transcript_json (env_net E) (env_str E) key mid u tr = (Inr t_json, tr1)
                     \<and> (\<not> truthy t_json \<or> transcript_json_to_text (env_str E) t_json = Inr [])
                     \<longrightarrow> results' = results)"
  proof (intro allI impI conjI)
    fix m rest mid u
    assume a: "filtered \<noteq> [] \<and> sort_by_start (env_fromiso E) filtered = Inr (m # rest)
             \<and> meeting_id_of m = Inr mid \<and> py_get m ''transcription_uuid'' = Inr u"
    assume "\<not> truthy mid"
    with p f a show "results' = results"
      by (simp add: process_customer_def bindE_def)
  next
    fix m rest mid u t_json tr1
    assume a: "filtered \<noteq> [] \<and> sort_by_start (env_fromiso E) filtered = Inr (m # rest)
             \<and> meeting_id_of m = Inr mid \<and> py_get m ''transcription_uuid'' = Inr u"
    assume b: "truthy mid
                     \<and> av_fetch_transcript_json (env_net E) (env_str E) key mid u tr = (Inr t_json, tr1)
                     \<and> (\<not> truthy t_json \<or> transcript_json_to_text (env_str E) t_json = Inr [])"
    with p f a show "results' = results"
      by (auto simp: process_customer_def bindE_def simp del: transcript_json_to_text.simps
               split: if_splits)
  qed
qed

lemma ex_second_filter:
  "filter_meetings (env_fromiso ex_env) (env_cutoff ex_env) ''owner@x.io'' ''second@y.io'' ex_items
   = Inr [ex_meeting ''ms'' ''second@y.io'' []]"
  by code_simp

lemma ex_second_skipped:
  "fst (process_customer ex_env ''key'' ''https://hook.example/in'' (1 / 2) ''owner@x.io'' ex_items
          ex_results ''second@y.io'' []) = Inr ex_results"
  by code_simp

lemma ex_lead_filter:
  "filter_meetings (env_fromiso ex_env) (env_cutoff ex_env) ''owner@x.io'' ''lead@y.io'' ex_items
   = Inr [ex_day5, ex_nostart, ex_day2]"
  by code_simp

theorem meetings_found_only_for_delivered_pairs_witness:
  "fst (process_customer ex_env ''key'' ''https://hook.example/in'' (1 / 2) ''owner@x.io'' ex_items
          ex_results ''second@y.io'' []) = Inr ex_results
   \<and> filter_meetings (env_fromiso ex_env) (env_cutoff ex_env) ''owner@x.io'' ''second@y.io'' ex_items
     = Inr [ex_meeting ''ms'' ''second@y.io'' []]
   \<and> filter_meetings (env_fromiso ex_env) (env_cutoff ex_env) ''owner@x.io'' ''lead@y.io'' ex_items
     = Inr [ex_day5, ex_nostart, ex_day2]
   \<and> map_option fst ex_run
     = Some (Inr \<lparr>contacts_processed = 2, emails_found = 2, meetings_found = 3,
                   transcripts_posted = 1, errors = []\<rparr>)
   \<and> (\<exists>evs. snd (process_customer ex_env ''key'' ''https://hook.example/in'' (1 / 2) ''owner@x.io''
                    ex_items ex_results ''second@y.io'' []) = [] @ evs
            \<and> \<not> delivery_attempted evs)"
proof -
  let ?P = "process_customer ex_env ''key'' ''https://hook.example/in'' (1 / 2) ''owner@x.io'' ex_items
          ex_results ''second@y.io'' []"
  have p: "?P = (Inr ex_results, snd ?P)"
    using ex_second_skipped by (cases ?P) simp
  from meetings_found_only_for_delivered_pairs [OF p ex_second_filter]
  obtain evs where e: "snd ?P = [] @ evs"
    "if delivery_attempted evs
     then meetings_found ex_results = meetings_found ex_results + length [ex_meeting ''ms'' ''second@y.io'' []]
     else ex_results = ex_results"
    by blast
  have "\<not> delivery_attempted evs"
  proof
    assume "delivery_attempted evs"
    with e(2) show False by simp
  qed
  with e(1) have "\<exists>evs. snd ?P = [] @ evs \<and> \<not> delivery_attempted evs" by blast
  with ex_second_skipped ex_second_filter ex_lead_filter ex_run_result show ?thesis by blast
qed

section \<open>Properties of the run: exceptions and recorded failures\<close>








end
